theory Spec2Isabelle
  imports Main "HOL-Library.Sublist"
begin

section \<open>Error values\<close>

text \<open>
  Go error values that occur in the engine. The three sentinels are the package-level
  variables created with \<^verbatim>\<open>errors.New\<close>; \<open>AppError\<close> is an error made by application code;
  \<open>Errorf msg wrapped\<close> is the result of \<^verbatim>\<open>fmt.Errorf\<close>: its message and the operands of
  its \<^verbatim>\<open>%w\<close> verbs (none when the format has no \<^verbatim>\<open>%w\<close>).
\<close>

datatype error =
    ErrInvalidState
  | ErrEventHandlerCoercionFailed
  | ErrRecovered
  | AppError string
  | Errorf string "error list"

fun Error :: "error \<Rightarrow> string" where
  "Error ErrInvalidState = ''invalid state''"
| "Error ErrEventHandlerCoercionFailed = ''failed to create event handler''"
| "Error ErrRecovered = ''operation recovered from panic''"
| "Error (AppError s) = s"
| "Error (Errorf s es) = s"


text \<open>Values a Go \<^verbatim>\<open>panic\<close> can carry, and their rendering by the \<^verbatim>\<open>%v\<close> verb.\<close>

datatype govalue = IntVal int | StrVal string | ErrVal error

function nat_dec :: "nat \<Rightarrow> string" where
  "nat_dec n = (if n < 10 then [''0123456789'' ! n] else nat_dec (n div 10) @ [''0123456789'' ! (n mod 10)])"
  by pat_completeness auto
termination
  by (relation "measure id") auto

fun fmt_v :: "govalue \<Rightarrow> string" where
  "fmt_v (IntVal i) = (if i < 0 then CHR ''-'' # nat_dec (nat (- i)) else nat_dec (nat i))"
| "fmt_v (StrVal s) = s"
| "fmt_v (ErrVal e) = Error e"

section \<open>OpContext\<close>

definition stateActive :: int where "stateActive = 0"
definition stateDispatchEvents :: int where "stateDispatchEvents = 1"
definition stateInvokeAfter :: int where "stateInvokeAfter = 2"
definition stateSuccess :: int where "stateSuccess = 3"
definition stateFailed :: int where "stateFailed = 4"
definition stateRolledback :: int where "stateRolledback = 5"

text \<open>
  The struct \<^verbatim>\<open>OpContext[T]\<close>. The transaction type \<open>'tx\<close> is of class \<open>zero\<close>: \<open>0\<close> is Go's
  zero value \<^verbatim>\<open>var zero T\<close>. After-hooks are closures over the OpContext itself; the
  record holds a name \<open>'h\<close> for each and the hub of the model says what the closure does.
  The embedded \<^verbatim>\<open>context.Context\<close> is opaque to the engine and is part of the external
  world \<open>'w\<close> that every callback receives; the fields \<^verbatim>\<open>hub\<close> and
  \<^verbatim>\<open>beginTransaction\<close> are fixed by \<^verbatim>\<open>BeginOperation\<close> to the hub, which the model passes
  to each method instead.
\<close>

record ('tx, 'ev, 'h) OpContext =
  state :: int
  activeTx :: 'tx
  events :: "'ev list"
  after :: "'h list"

definition isTransactionActive :: "('tx::zero, 'ev, 'h) OpContext \<Rightarrow> bool" where
  "isTransactionActive oc = (activeTx oc \<noteq> 0)"

definition Emit :: "('tx, 'ev, 'h) OpContext \<Rightarrow> 'ev \<Rightarrow> error option \<times> ('tx, 'ev, 'h) OpContext" where
  "Emit oc evt =
     (if state oc \<le> stateDispatchEvents then (Some ErrInvalidState, oc)
      else (None, oc\<lparr>events := events oc @ [evt]\<rparr>))"

definition AfterFunc :: "('tx, 'ev, 'h) OpContext \<Rightarrow> 'h \<Rightarrow> error option \<times> ('tx, 'ev, 'h) OpContext" where
  "AfterFunc oc fn =
     (if state oc \<noteq> stateActive \<and> state oc \<noteq> stateDispatchEvents then (Some ErrInvalidState, oc)
      else (None, oc\<lparr>after := after oc @ [fn]\<rparr>))"

section \<open>Hub\<close>

text \<open>
  An event is an interface value: its dynamic type, which \<^verbatim>\<open>reflect.TypeOf\<close> reads, and
  its payload.
\<close>

type_synonym ('ty, 'p) event = "'ty \<times> 'p"

definition TypeOf :: "('ty, 'p) event \<Rightarrow> 'ty" where
  "TypeOf evt = fst evt"

text \<open>
  The interface \<^verbatim>\<open>eventHandler[Tx]\<close> has the one method \<^verbatim>\<open>Dispatch(op, evt) error\<close>; a value
  of it is that method. It receives the pointer to the OpContext, so it returns the
  OpContext it leaves behind, and the external world likewise.
\<close>

type_synonym ('tx, 'ev, 'h, 'w) eventHandler =
  "('tx, 'ev, 'h) OpContext \<Rightarrow> 'ev \<Rightarrow> 'w \<Rightarrow> error option \<times> ('tx, 'ev, 'h) OpContext \<times> 'w"

text \<open>
  The struct \<^verbatim>\<open>Hub[Tx]\<close>: the transaction factory and the handler registry (a Go map
  gives the nil slice for a missing key: the function gives \<open>[]\<close>). With the type
  argument \<^verbatim>\<open>Tx\<close> come the two methods of the \<^verbatim>\<open>Transaction\<close> constraint, \<open>Commit\<close> and
  \<open>Rollback\<close>, and \<open>afterFunc\<close> says what the after-hook named \<open>h\<close> does when it is called;
  the model keeps them beside the two fields.
\<close>

record ('tx, 'ty, 'p, 'h, 'w) Hub =
  beginTransaction :: "'w \<Rightarrow> ('tx \<times> error option) \<times> 'w"
  eventHandlers :: "'ty \<Rightarrow> ('tx, ('ty, 'p) event, 'h, 'w) eventHandler list"
  Commit :: "'tx \<Rightarrow> 'w \<Rightarrow> error option \<times> 'w"
  Rollback :: "'tx \<Rightarrow> 'w \<Rightarrow> error option \<times> 'w"
  afterFunc :: "'h \<Rightarrow> ('tx, ('ty, 'p) event, 'h) OpContext \<Rightarrow> 'w \<Rightarrow> ('tx, ('ty, 'p) event, 'h) OpContext \<times> 'w"

definition BeginOperation :: "('tx::zero, 'ty, 'p, 'h, 'w) Hub \<Rightarrow> ('tx, ('ty, 'p) event, 'h) OpContext" where
  "BeginOperation hub = \<lparr>state = 0, activeTx = 0, events = [], after = []\<rparr>"

definition Tx :: "('tx::zero, 'ty, 'p, 'h, 'w) Hub \<Rightarrow> ('tx, ('ty, 'p) event, 'h) OpContext \<Rightarrow> 'w
    \<Rightarrow> ('tx \<times> error option) \<times> ('tx, ('ty, 'p) event, 'h) OpContext \<times> 'w" where
  "Tx hub oc w =
     (if \<not> isTransactionActive oc then
        (case beginTransaction hub w of
           ((tx, Some err), w') \<Rightarrow> ((0, Some err), oc, w')
         | ((tx, None), w') \<Rightarrow> ((tx, None), oc\<lparr>activeTx := tx\<rparr>, w'))
      else ((activeTx oc, None), oc, w))"

section \<open>Event handler registration\<close>

text \<open>
  What the registry asks of package \<^verbatim>\<open>reflect\<close>: whether a type is assignable to another,
  whether a type implements \<^verbatim>\<open>error\<close>, the type of \<^verbatim>\<open>&OpContext[Tx]{}\<close>, and how a type
  prints under \<^verbatim>\<open>%s\<close>.
\<close>

record 'ty reflect =
  AssignableTo :: "'ty \<Rightarrow> 'ty \<Rightarrow> bool"
  Implements_error :: "'ty \<Rightarrow> bool"
  opContextType :: 'ty
  typeName :: "'ty \<Rightarrow> string"

text \<open>
  A function value as \<^verbatim>\<open>reflect\<close> sees it: the types of its parameters, the types of its
  results, and what a call of it does. The argument \<^verbatim>\<open>hnd any\<close> of a registration is
  such a function, or a value of another kind (of which only the \<^verbatim>\<open>%T\<close> rendering matters).
\<close>

record ('tx, 'ty, 'p, 'h, 'w) gofunc =
  inTypes :: "'ty list"
  outTypes :: "'ty list"
  code :: "('tx, ('ty, 'p) event, 'h, 'w) eventHandler"

datatype ('tx, 'ty, 'p, 'h, 'w) anyvalue =
    NonFunc string
  | FuncValue "('tx, 'ty, 'p, 'h, 'w) gofunc"

record ('tx, 'ty, 'p, 'h, 'w) genericEventHandler =
  fn :: "('tx, 'ty, 'p, 'h, 'w) gofunc"
  evtParameterType :: 'ty
  hasContext :: bool

text \<open>\<^verbatim>\<open>makeEventHandler\<close>: \<open>Inl\<close> is the value it panics with.\<close>

definition makeEventHandler :: "'ty reflect \<Rightarrow> 'ty \<Rightarrow> ('tx, 'ty, 'p, 'h, 'w) anyvalue
    \<Rightarrow> error + ('tx, 'ty, 'p, 'h, 'w) genericEventHandler" where
  "makeEventHandler R eventType val =
     (case val of
        NonFunc tn \<Rightarrow> Inl (Errorf (''event handler type '' @ tn @ '' is not a function'') [])
      | FuncValue f \<Rightarrow>
          if length (outTypes f) = 1 \<and> \<not> Implements_error R (outTypes f ! 0) then
            Inl (Errorf (''event handler return type '' @ typeName R (outTypes f ! 0)
                          @ '' does not implement error'') [])
          else if 1 < length (outTypes f) then
            Inl (Errorf ''event handler must return 0..1 values'' [])
          else if length (inTypes f) = 2 then
            (if \<not> AssignableTo R (opContextType R) (inTypes f ! 0) then
               Inl (Errorf (''OpContext[Tx] is not assigned to event handler context parameter ''
                             @ typeName R (inTypes f ! 0)) [])
             else if \<not> AssignableTo R eventType (inTypes f ! 1) then
               Inl (Errorf (''concrete event type '' @ typeName R eventType
                             @ '' is not assignable to event handler parameter ''
                             @ typeName R (inTypes f ! 1)) [])
             else Inr \<lparr>fn = f, evtParameterType = eventType, hasContext = True\<rparr>)
          else if length (inTypes f) = 1 then
            (if \<not> AssignableTo R eventType (inTypes f ! 0) then
               Inl (Errorf (''concrete event type '' @ typeName R eventType
                             @ '' is not assignable to event handler parameter ''
                             @ typeName R (inTypes f ! 0)) [])
             else Inr \<lparr>fn = f, evtParameterType = eventType, hasContext = False\<rparr>)
          else Inl (Errorf ''event handler must declare 1..2 parameters'' []))"

text \<open>
  \<^verbatim>\<open>genericEventHandler.Dispatch\<close>. The OpContext is among the arguments of the call only
  when the function declares a context parameter; a function with no result returns
  nothing, which is nil.
\<close>

definition Dispatch :: "'ty reflect \<Rightarrow> ('tx, 'ty, 'p, 'h, 'w) genericEventHandler
    \<Rightarrow> ('tx, ('ty, 'p) event, 'h, 'w) eventHandler" where
  "Dispatch R h oc evt w =
     (if \<not> AssignableTo R (TypeOf evt) (evtParameterType h) then
        (Some (Errorf (''event type '' @ typeName R (TypeOf evt)
                        @ '' is not assignable to handler parameter type ''
                        @ typeName R (evtParameterType h)) []), oc, w)
      else
        (case code (fn h) oc evt w of
           (r, oc', w') \<Rightarrow>
             (if outTypes (fn h) = [] then None else r, if hasContext h then oc' else oc, w')))"

text \<open>
  \<^verbatim>\<open>Hub.RegisterEventHandler\<close>: the panic of \<^verbatim>\<open>makeEventHandler\<close> leaves the call before
  the map is written.
\<close>

definition RegisterEventHandler :: "'ty reflect \<Rightarrow> ('tx, 'ty, 'p, 'h, 'w) Hub \<Rightarrow> ('ty, 'p) event
    \<Rightarrow> ('tx, 'ty, 'p, 'h, 'w) anyvalue \<Rightarrow> error + ('tx, 'ty, 'p, 'h, 'w) Hub" where
  "RegisterEventHandler R hub event hnd =
     (case makeEventHandler R (TypeOf event) hnd of
        Inl p \<Rightarrow> Inl p
      | Inr h \<Rightarrow>
          Inr (hub\<lparr>eventHandlers := (eventHandlers hub)
                 (TypeOf event := eventHandlers hub (TypeOf event) @ [Dispatch R h])\<rparr>))"

section \<open>The engine and what it is seen to do\<close>

text \<open>
  A run of the engine is observed through a trace of the calls the engine itself makes:
  of the operation body, of \<^verbatim>\<open>commit()\<close> and \<^verbatim>\<open>rollback()\<close>, of \<^verbatim>\<open>hub.dispatchEvent\<close>, of each
  handler (with its position in the handler list and what it returned), of each
  after-hook and of the transaction's \<^verbatim>\<open>Commit\<close> and \<^verbatim>\<open>Rollback\<close> (with what they
  returned). Callbacks see the OpContext and the world, never the trace.
\<close>

datatype ('tx, 'ev, 'h) call =
    OpBody
  | CommitCall
  | RollbackCall
  | DispatchCall 'ev
  | HandlerCall 'ev nat "error option"
  | HookCall 'h
  | TxCommit 'tx "error option"
  | TxRollback 'tx "error option"

record ('tx, 'ev, 'h, 'w) machine =
  ctx :: "('tx, 'ev, 'h) OpContext"
  world :: 'w
  trace :: "('tx, 'ev, 'h) call list"

definition observe :: "('tx, 'ev, 'h) call \<Rightarrow> ('tx, 'ev, 'h, 'w) machine \<Rightarrow> ('tx, 'ev, 'h, 'w) machine" where
  "observe c m = m\<lparr>trace := trace m @ [c]\<rparr>"

definition set_state :: "int \<Rightarrow> ('tx, 'ev, 'h, 'w) machine \<Rightarrow> ('tx, 'ev, 'h, 'w) machine" where
  "set_state s m = m\<lparr>ctx := (ctx m)\<lparr>state := s\<rparr>\<rparr>"

text \<open>\<^verbatim>\<open>Hub.dispatchEvent\<close>: the handlers of the event's type, in registration order, up to the first error.\<close>

fun dispatchHandlers :: "('tx, 'ev, 'h, 'w) eventHandler list \<Rightarrow> nat \<Rightarrow> 'ev
    \<Rightarrow> ('tx, 'ev, 'h, 'w) machine \<Rightarrow> error option \<times> ('tx, 'ev, 'h, 'w) machine" where
  "dispatchHandlers [] i evt m = (None, m)"
| "dispatchHandlers (hnd # hs) i evt m =
     (case hnd (ctx m) evt (world m) of
        (r, oc', w') \<Rightarrow>
          (let m' = \<lparr>ctx = oc', world = w', trace = trace m @ [HandlerCall evt i r]\<rparr> in
           case r of
             Some err \<Rightarrow> (Some err, m')
           | None \<Rightarrow> dispatchHandlers hs (Suc i) evt m'))"

definition dispatchEvent :: "('tx, 'ty, 'p, 'h, 'w) Hub \<Rightarrow> ('tx, ('ty, 'p) event, 'h, 'w) machine
    \<Rightarrow> ('ty, 'p) event \<Rightarrow> error option \<times> ('tx, ('ty, 'p) event, 'h, 'w) machine" where
  "dispatchEvent hub m evt = dispatchHandlers (eventHandlers hub (TypeOf evt)) 0 evt m"

text \<open>
  \<^verbatim>\<open>OpContext.dispatchEvents\<close>. A handler may append to the buffer, so the loop need not
  end: not returning is the value \<open>None\<close>.
\<close>

partial_function (option) dispatchEvents :: "('tx, 'ty, 'p, 'h, 'w) Hub
    \<Rightarrow> ('tx, ('ty, 'p) event, 'h, 'w) machine
    \<Rightarrow> (error option \<times> ('tx, ('ty, 'p) event, 'h, 'w) machine) option" where
  "dispatchEvents hub m =
     (case events (ctx m) of
        [] \<Rightarrow> Some (None, m)
      | evt # rest \<Rightarrow>
          (case dispatchEvent hub (observe (DispatchCall evt) (m\<lparr>ctx := (ctx m)\<lparr>events := rest\<rparr>\<rparr>)) evt of
             (Some err, m') \<Rightarrow> Some (Some err, m')
           | (None, m') \<Rightarrow> dispatchEvents hub m'))"

text \<open>\<^verbatim>\<open>invokeAfterFuncs\<close>: \<^verbatim>\<open>range\<close> reads the slice once, before the first hook runs.\<close>

definition invokeAfterFuncs :: "('tx, 'ty, 'p, 'h, 'w) Hub \<Rightarrow> ('tx, ('ty, 'p) event, 'h, 'w) machine
    \<Rightarrow> ('tx, ('ty, 'p) event, 'h, 'w) machine" where
  "invokeAfterFuncs hub m =
     foldl (\<lambda>m fn. case afterFunc hub fn (ctx m) (world m) of
                     (oc', w') \<Rightarrow> \<lparr>ctx = oc', world = w', trace = trace m @ [HookCall fn]\<rparr>)
           m (after (ctx m))"

text \<open>The call \<^verbatim>\<open>o.activeTx.Rollback(o.Context)\<close>, as both \<^verbatim>\<open>commit\<close> and \<^verbatim>\<open>rollback\<close> make it.\<close>

definition callRollback :: "('tx, 'ty, 'p, 'h, 'w) Hub \<Rightarrow> ('tx, ('ty, 'p) event, 'h, 'w) machine
    \<Rightarrow> error option \<times> ('tx, ('ty, 'p) event, 'h, 'w) machine" where
  "callRollback hub m =
     (case Rollback hub (activeTx (ctx m)) (world m) of
        (r, w') \<Rightarrow> (r, observe (TxRollback (activeTx (ctx m)) r) (m\<lparr>world := w'\<rparr>)))"

definition callCommit :: "('tx, 'ty, 'p, 'h, 'w) Hub \<Rightarrow> ('tx, ('ty, 'p) event, 'h, 'w) machine
    \<Rightarrow> error option \<times> ('tx, ('ty, 'p) event, 'h, 'w) machine" where
  "callCommit hub m =
     (case Commit hub (activeTx (ctx m)) (world m) of
        (r, w') \<Rightarrow> (r, observe (TxCommit (activeTx (ctx m)) r) (m\<lparr>world := w'\<rparr>)))"

definition commit :: "('tx::zero, 'ty, 'p, 'h, 'w) Hub \<Rightarrow> ('tx, ('ty, 'p) event, 'h, 'w) machine
    \<Rightarrow> (error option \<times> ('tx, ('ty, 'p) event, 'h, 'w) machine) option" where
  "commit hub m0 =
     (let m = observe CommitCall m0 in
      if state (ctx m) \<noteq> stateActive then Some (Some ErrInvalidState, m)
      else
        (case dispatchEvents hub (set_state stateDispatchEvents m) of
           None \<Rightarrow> None
         | Some (Some err, m1) \<Rightarrow>
             (let m2 = set_state stateFailed m1 in
              if isTransactionActive (ctx m2) then Some (Some err, snd (callRollback hub m2))
              else Some (Some err, m2))
         | Some (None, m1) \<Rightarrow>
             (case (if isTransactionActive (ctx m1) then callCommit hub m1 else (None, m1)) of
                (Some txErr, m2) \<Rightarrow> Some (Some txErr, set_state stateFailed m2)
              | (None, m2) \<Rightarrow>
                  Some (None, set_state stateSuccess (invokeAfterFuncs hub (set_state stateInvokeAfter m2))))))"

definition rollback :: "('tx::zero, 'ty, 'p, 'h, 'w) Hub \<Rightarrow> ('tx, ('ty, 'p) event, 'h, 'w) machine
    \<Rightarrow> error option \<times> ('tx, ('ty, 'p) event, 'h, 'w) machine" where
  "rollback hub m0 =
     (let m = observe RollbackCall m0 in
      if state (ctx m) \<noteq> stateActive then (Some ErrInvalidState, m)
      else
        (let m1 = set_state stateRolledback m in
         if isTransactionActive (ctx m1) then callRollback hub m1
         else (None, m1)))"

section \<open>Invoke and InvokeTx\<close>

text \<open>
  An operation body returns \<^verbatim>\<open>(*O, error)\<close>, where the pointer may be nil, or panics with
  a value; either way it leaves an OpContext and a world behind.
\<close>

datatype 'o outcome = Returns "'o option" "error option" | Panics govalue

type_synonym ('tx, 'ev, 'h, 'w, 'i, 'o) Operation =
  "('tx, 'ev, 'h) OpContext \<Rightarrow> 'i \<Rightarrow> 'w \<Rightarrow> 'o outcome \<times> ('tx, 'ev, 'h) OpContext \<times> 'w"

type_synonym ('tx, 'ev, 'h, 'w, 'i, 'o) TxOperation =
  "('tx, 'ev, 'h) OpContext \<Rightarrow> 'tx \<Rightarrow> 'i \<Rightarrow> 'w \<Rightarrow> 'o outcome \<times> ('tx, 'ev, 'h) OpContext \<times> 'w"

text \<open>
  \<^verbatim>\<open>invokeWithRecover\<close>, applied to what the call \<^verbatim>\<open>fn()\<close> did: the named results
  \<^verbatim>\<open>out\<close> and \<^verbatim>\<open>err\<close> are nil when \<^verbatim>\<open>fn\<close> panics, and the deferred function then sets \<^verbatim>\<open>err\<close>.
  What \<^verbatim>\<open>recover()\<close> returns after a panic is not nil (\<^verbatim>\<open>panic(nil)\<close> panics with a
  runtime error value).
\<close>

fun invokeWithRecover :: "'o outcome \<Rightarrow> 'o option \<times> error option" where
  "invokeWithRecover (Returns out err) = (out, err)"
| "invokeWithRecover (Panics (ErrVal e)) =
     (None, Some (Errorf (Error ErrRecovered @ '': '' @ Error e) [ErrRecovered, e]))"
| "invokeWithRecover (Panics (IntVal i)) =
     (None, Some (Errorf (Error ErrRecovered @ '': '' @ fmt_v (IntVal i)) [ErrRecovered]))"
| "invokeWithRecover (Panics (StrVal s)) =
     (None, Some (Errorf (Error ErrRecovered @ '': '' @ fmt_v (StrVal s)) [ErrRecovered]))"

text \<open>
  The statements that follow the call of the body, the same in \<^verbatim>\<open>Invoke\<close> (lines 43 to 50)
  and in \<^verbatim>\<open>InvokeTx\<close> (lines 72 to 79).
\<close>

definition conclude :: "('tx::zero, 'ty, 'p, 'h, 'w) Hub \<Rightarrow> 'o option \<times> error option
    \<Rightarrow> ('tx, ('ty, 'p) event, 'h, 'w) machine
    \<Rightarrow> (('o option \<times> error option) \<times> ('tx, ('ty, 'p) event, 'h, 'w) machine) option" where
  "conclude hub res m1 =
     (case res of
        (output, Some err) \<Rightarrow> Some ((None, Some err), snd (rollback hub m1))
      | (output, None) \<Rightarrow>
          (case commit hub m1 of
             None \<Rightarrow> None
           | Some (Some err, m2) \<Rightarrow>
               Some ((None, Some (Errorf (''commit operation failed ('' @ Error err @ '')'') [])), m2)
           | Some (None, m2) \<Rightarrow> Some ((output, None), m2)))"

definition Invoke :: "('tx::zero, 'ty, 'p, 'h, 'w) Hub \<Rightarrow> ('tx, ('ty, 'p) event, 'h, 'w, 'i, 'o) Operation
    \<Rightarrow> 'i \<Rightarrow> 'w \<Rightarrow> (('o option \<times> error option) \<times> ('tx, ('ty, 'p) event, 'h, 'w) machine) option" where
  "Invoke hub op input w =
     (case op (BeginOperation hub) input w of
        (res, oc1, w1) \<Rightarrow>
          conclude hub (invokeWithRecover res) \<lparr>ctx = oc1, world = w1, trace = [OpBody]\<rparr>)"

definition InvokeTx :: "('tx::zero, 'ty, 'p, 'h, 'w) Hub \<Rightarrow> ('tx, ('ty, 'p) event, 'h, 'w, 'i, 'o) TxOperation
    \<Rightarrow> 'i \<Rightarrow> 'w \<Rightarrow> (('o option \<times> error option) \<times> ('tx, ('ty, 'p) event, 'h, 'w) machine) option" where
  "InvokeTx hub op input w =
     (case Tx hub (BeginOperation hub) w of
        ((tx, Some err), oc0, w0) \<Rightarrow> Some ((None, Some err), \<lparr>ctx = oc0, world = w0, trace = []\<rparr>)
      | ((tx, None), oc0, w0) \<Rightarrow>
          (case op oc0 tx input w0 of
             (res, oc1, w1) \<Rightarrow>
               conclude hub (invokeWithRecover res) \<lparr>ctx = oc1, world = w1, trace = [OpBody]\<rparr>))"

section \<open>Bodies written against the public surface\<close>

text \<open>
  Outside package \<^verbatim>\<open>operator\<close> a body, a handler or an after-hook reaches the OpContext
  through \<^verbatim>\<open>Tx\<close>, \<^verbatim>\<open>Emit\<close> and \<^verbatim>\<open>AfterFunc\<close> only. Such code is a script: it ends with an
  outcome, or makes one of the three calls and goes on according to what the call
  returned, or acts on the world.
\<close>

datatype ('tx, 'ev, 'h, 'w, 'o) script =
    Finish "'o outcome"
  | CallTx "'tx \<times> error option \<Rightarrow> ('tx, 'ev, 'h, 'w, 'o) script"
  | CallEmit 'ev "error option \<Rightarrow> ('tx, 'ev, 'h, 'w, 'o) script"
  | CallAfterFunc 'h "error option \<Rightarrow> ('tx, 'ev, 'h, 'w, 'o) script"
  | Act "'w \<Rightarrow> 'w" "('tx, 'ev, 'h, 'w, 'o) script"

primrec perform :: "('tx::zero, 'ty, 'p, 'h, 'w) Hub \<Rightarrow> ('tx, ('ty, 'p) event, 'h, 'w, 'o) script
    \<Rightarrow> ('tx, ('ty, 'p) event, 'h) OpContext \<Rightarrow> 'w
    \<Rightarrow> 'o outcome \<times> ('tx, ('ty, 'p) event, 'h) OpContext \<times> 'w" where
  "perform hub (Finish r) = (\<lambda>oc w. (r, oc, w))"
| "perform hub (CallTx k) =
     (\<lambda>oc w. case Tx hub oc w of (r, oc', w') \<Rightarrow> perform hub (k r) oc' w')"
| "perform hub (CallEmit evt k) =
     (\<lambda>oc w. case Emit oc evt of (r, oc') \<Rightarrow> perform hub (k r) oc' w)"
| "perform hub (CallAfterFunc h k) =
     (\<lambda>oc w. case AfterFunc oc h of (r, oc') \<Rightarrow> perform hub (k r) oc' w)"
| "perform hub (Act f s) = (\<lambda>oc w. perform hub s oc (f w))"

section \<open>Reading a trace\<close>

text \<open>The events handed to \<^verbatim>\<open>hub.dispatchEvent\<close>, in the order of the calls.\<close>

fun dispatched :: "('tx, 'ev, 'h) call list \<Rightarrow> 'ev list" where
  "dispatched [] = []"
| "dispatched (DispatchCall e # cs) = e # dispatched cs"
| "dispatched (c # cs) = dispatched cs"

text \<open>What the drain loop adds to a trace: dispatches and handler calls.\<close>

fun dispatch_entry :: "('tx, 'ev, 'h) call \<Rightarrow> bool" where
  "dispatch_entry (DispatchCall e) = True"
| "dispatch_entry (HandlerCall e i r) = True"
| "dispatch_entry c = False"

text \<open>What \<^verbatim>\<open>commit()\<close> and \<^verbatim>\<open>rollback()\<close> add after the entry for their own call.\<close>

fun inner_entry :: "('tx, 'ev, 'h) call \<Rightarrow> bool" where
  "inner_entry OpBody = False"
| "inner_entry CommitCall = False"
| "inner_entry RollbackCall = False"
| "inner_entry c = True"

text \<open>A call of \<^verbatim>\<open>Commit\<close> or \<^verbatim>\<open>Rollback\<close> on the zero value of the transaction type.\<close>

fun on_zero :: "('tx::zero, 'ev, 'h) call \<Rightarrow> bool" where
  "on_zero (TxCommit tx r) = (tx = 0)"
| "on_zero (TxRollback tx r) = (tx = 0)"
| "on_zero c = False"


fun hook_entry :: "('tx, 'ev, 'h) call \<Rightarrow> bool" where
  "hook_entry (HookCall h) = True"
| "hook_entry c = False"

text \<open>
  Handlers that only ever append to the event buffer: whatever was pending when such a
  handler was called is still pending, in the same order, when it returns.
\<close>

definition append_only :: "('tx, 'ty, 'p, 'h, 'w) Hub \<Rightarrow> bool" where
  "append_only hub =
     (\<forall>ty. \<forall>hnd \<in> set (eventHandlers hub ty). \<forall>oc evt w.
        prefix (events oc) (events (fst (snd (hnd oc evt w)))))"

text \<open>Handlers that leave the event buffer as it is.\<close>

definition buffer_kept :: "('tx, 'ty, 'p, 'h, 'w) Hub \<Rightarrow> bool" where
  "buffer_kept hub =
     (\<forall>ty. \<forall>hnd \<in> set (eventHandlers hub ty). \<forall>oc evt w.
        events (fst (snd (hnd oc evt w))) = events oc)"

text \<open>\<open>n\<close> calls of \<^verbatim>\<open>Tx()\<close> in a row on one OpContext, and what each returned.\<close>

fun Tx_repeat :: "('tx::zero, 'ty, 'p, 'h, 'w) Hub \<Rightarrow> nat \<Rightarrow> ('tx, ('ty, 'p) event, 'h) OpContext \<Rightarrow> 'w
    \<Rightarrow> ('tx \<times> error option) list \<times> ('tx, ('ty, 'p) event, 'h) OpContext \<times> 'w" where
  "Tx_repeat hub 0 oc w = ([], oc, w)"
| "Tx_repeat hub (Suc n) oc w =
     (case Tx hub oc w of
        (r, oc', w') \<Rightarrow>
          (case Tx_repeat hub n oc' w' of (rs, oc'', w'') \<Rightarrow> (r # rs, oc'', w'')))"

text \<open>The outcomes after which \<^verbatim>\<open>invokeWithRecover\<close> returns a non-nil error.\<close>

fun failed :: "'o outcome \<Rightarrow> bool" where
  "failed (Returns out None) = False"
| "failed (Returns out (Some err)) = True"
| "failed (Panics r) = True"

section \<open>Example hubs and operations\<close>

text \<open>
  Transactions are numbered handles (\<open>0\<close> is the zero value), event types are their
  names, and the world is the journal that the application's own code writes.
\<close>

type_synonym exHub = "(nat, string, nat, nat, string list) Hub"
type_synonym exMachine = "(nat, (string, nat) event, nat, string list) machine"

text \<open>A hub without handlers whose factory numbers the transactions it begins.\<close>

definition plainHub :: exHub where
  "plainHub =
     \<lparr>beginTransaction = (\<lambda>w. ((Suc (length w), None), w @ [''begin''])),
      eventHandlers = (\<lambda>ty. []),
      Commit = (\<lambda>tx w. (None, w @ [''commit''])),
      Rollback = (\<lambda>tx w. (None, w @ [''rollback''])),
      afterFunc = (\<lambda>h oc w. (oc, w @ [''hook'']))\<rparr>"

text \<open>A factory that fails on its first call (an empty journal) and works from then on.\<close>

definition flakyHub :: exHub where
  "flakyHub = plainHub
     \<lparr>beginTransaction := (\<lambda>w. if w = [] then ((0, Some (AppError ''connection refused'')), [''begin failed''])
                               else ((length w, None), w @ [''begin'']))\<rparr>"

text \<open>A factory that returns the zero value and a nil error.\<close>

definition zeroHub :: exHub where
  "zeroHub = plainHub \<lparr>beginTransaction := (\<lambda>w. ((0, None), w @ [''begin'']))\<rparr>"



definition opInsert :: "(nat, (string, nat) event, nat, string list, nat, nat) Operation" where
  "opInsert oc input w =
     (case Tx plainHub oc w of (r, oc', w') \<Rightarrow> (Returns (Some input) None, oc', w' @ [''insert'']))"

definition txOpInsert :: "(nat, (string, nat) event, nat, string list, nat, nat) TxOperation" where
  "txOpInsert oc tx input w = (Returns (Some input) None, oc, w @ [''insert''])"

text \<open>
  A hub with three handlers for \<^verbatim>\<open>UserCreated\<close>: the first writes to the journal, the
  second fails, the third would write to the journal.
\<close>

definition auditHub :: exHub where
  "auditHub = plainHub
     \<lparr>eventHandlers := (\<lambda>ty. if ty = ''UserCreated''
         then [\<lambda>oc evt w. (None, oc, w @ [''audit'']),
               \<lambda>oc evt w. (Some (AppError ''quota exceeded''), oc, w),
               \<lambda>oc evt w. (None, oc, w @ [''mail''])]
         else [])\<rparr>"


text \<open>
  A hub whose handler for \<^verbatim>\<open>UserCreated\<close> appends an \<^verbatim>\<open>AuditLogged\<close> event to the buffer
  while the buffer is being drained.
\<close>

definition chainHub :: exHub where
  "chainHub = plainHub
     \<lparr>eventHandlers := (\<lambda>ty. if ty = ''UserCreated''
         then [\<lambda>oc evt w. (None, oc\<lparr>events := events oc @ [(''AuditLogged'', snd evt)]\<rparr>, w @ [''audit''])]
         else [])\<rparr>"

definition chainStart :: exMachine where
  "chainStart =
     \<lparr>ctx = \<lparr>state = stateDispatchEvents, activeTx = 0,
              events = [(''UserCreated'', 1), (''UserCreated'', 2)], after = [5]\<rparr>,
      world = [], trace = []\<rparr>"

text \<open>
  The body of the README as a script: \<^verbatim>\<open>Tx()\<close>, an insert, \<^verbatim>\<open>Emit\<close> of a \<^verbatim>\<open>UserCreated\<close>
  event whose returned error is dropped, and the output.
\<close>

definition readmeCreateUser :: "nat \<Rightarrow> (nat, (string, nat) event, nat, string list, nat) script" where
  "readmeCreateUser input =
     CallTx (\<lambda>r. case snd r of
        Some err \<Rightarrow> Finish (Returns None (Some err))
      | None \<Rightarrow> Act (\<lambda>w. w @ [''insert''])
                 (CallEmit (''UserCreated'', input) (\<lambda>e. Finish (Returns (Some input) None))))"

text \<open>
  Types by their names, with the assignments the registry's tests use: a type to itself,
  any type to \<^verbatim>\<open>any\<close>, and the OpContext pointer to \<^verbatim>\<open>context.Context\<close>.
\<close>

definition goTypes :: "string reflect" where
  "goTypes =
     \<lparr>AssignableTo = (\<lambda>t u. t = u \<or> u = ''any'' \<or> (t = ''*OpContext[Tx]'' \<and> u = ''context.Context'')),
      Implements_error = (\<lambda>t. t = ''error''),
      opContextType = ''*OpContext[Tx]'',
      typeName = (\<lambda>t. t)\<rparr>"

text \<open>
  The callbacks \<^verbatim>\<open>func(ev *UserDeleted)\<close>, \<^verbatim>\<open>func(ev *UserCreated) int\<close>,
  \<^verbatim>\<open>func()\<close> and \<^verbatim>\<open>func(ctx context.Context, ev any) error\<close>.
\<close>

definition hndOtherEvent :: "(nat, string, nat, nat, string list) gofunc" where
  "hndOtherEvent = \<lparr>inTypes = [''*UserDeleted''], outTypes = [], code = (\<lambda>oc evt w. (None, oc, w))\<rparr>"

definition hndReturnsInt :: "(nat, string, nat, nat, string list) gofunc" where
  "hndReturnsInt = \<lparr>inTypes = [''*UserCreated''], outTypes = [''int''], code = (\<lambda>oc evt w. (None, oc, w))\<rparr>"

definition hndNoParams :: "(nat, string, nat, nat, string list) gofunc" where
  "hndNoParams = \<lparr>inTypes = [], outTypes = [], code = (\<lambda>oc evt w. (None, oc, w))\<rparr>"

definition hndWellFormed :: "(nat, string, nat, nat, string list) gofunc" where
  "hndWellFormed = \<lparr>inTypes = [''context.Context'', ''any''], outTypes = [''error''],
     code = (\<lambda>oc evt w. (None, oc, w @ [''handled'']))\<rparr>"

section \<open>Basic facts\<close>

declare nat_dec.simps [simp del]

lemmas state_defs = stateActive_def stateDispatchEvents_def stateInvokeAfter_def
  stateSuccess_def stateFailed_def stateRolledback_def

lemma dispatched_append: "dispatched (xs @ ys) = dispatched xs @ dispatched ys"
  by (induction xs rule: dispatched.induct) simp_all

lemma trace_observe [simp]: "trace (observe c m) = trace m @ [c]"
  and ctx_observe [simp]: "ctx (observe c m) = ctx m"
  and world_observe [simp]: "world (observe c m) = world m"
  by (simp_all add: observe_def)

lemma trace_set_state [simp]: "trace (set_state s m) = trace m"
  and world_set_state [simp]: "world (set_state s m) = world m"
  and ctx_set_state [simp]: "ctx (set_state s m) = (ctx m)\<lparr>state := s\<rparr>"
  by (simp_all add: set_state_def)

lemma dispatchHandlers_trace:
  "dispatchHandlers hs i evt m = (r, m') \<Longrightarrow>
   \<exists>tr. trace m' = trace m @ tr \<and> list_all dispatch_entry tr \<and> dispatched tr = []"
proof (induction hs arbitrary: i m)
  case Nil
  then show ?case by simp
next
  case (Cons hnd hs)
  obtain a oc' w' where h: "hnd (ctx m) evt (world m) = (a, oc', w')"
    by (cases "hnd (ctx m) evt (world m)") auto
  show ?case
  proof (cases a)
    case None
    with Cons.prems h have "dispatchHandlers hs (Suc i) evt \<lparr>ctx = oc', world = w', trace = trace m @ [HandlerCall evt i None]\<rparr> = (r, m')"
      by simp
    from Cons.IH [OF this] show ?thesis by auto
  next
    case (Some err)
    with Cons.prems h show ?thesis by auto
  qed
qed

lemma dispatchEvent_trace:
  "dispatchEvent hub m evt = (r, m') \<Longrightarrow>
   \<exists>tr. trace m' = trace m @ tr \<and> list_all dispatch_entry tr \<and> dispatched tr = []"
  unfolding dispatchEvent_def by (rule dispatchHandlers_trace)

lemmas dispatchEvents_induct = dispatchEvents.raw_induct [rotated -1, consumes 1, case_names step]

lemma dispatchEvents_trace:
  assumes "dispatchEvents hub m = Some rm"
  shows "\<exists>tr. trace (snd rm) = trace m @ tr \<and> list_all dispatch_entry tr"
  using assms
proof (induct rule: dispatchEvents_induct)
  case (step loop hub m rm)
  show ?case
  proof (cases "events (ctx m)")
    case Nil
    with step(2) show ?thesis by auto
  next
    case (Cons evt rest)
    let ?m0 = "observe (DispatchCall evt) (m\<lparr>ctx := ctx m\<lparr>events := rest\<rparr>\<rparr>)"
    obtain r m1 where d: "dispatchEvent hub ?m0 evt = (r, m1)"
      by (cases "dispatchEvent hub ?m0 evt") auto
    from dispatchEvent_trace [OF d] obtain tr where
      tr: "trace m1 = trace m @ DispatchCall evt # tr" "list_all dispatch_entry tr"
      by auto
    show ?thesis
    proof (cases r)
      case None
      with step(2) Cons d have "loop hub m1 = Some rm" by simp
      from step(1) [OF this] obtain tr' where
        "trace (snd rm) = trace m1 @ tr'" "list_all dispatch_entry tr'" by blast
      with tr have "trace (snd rm) = trace m @ (DispatchCall evt # tr @ tr')"
        "list_all dispatch_entry (DispatchCall evt # tr @ tr')" by simp_all
      then show ?thesis by blast
    next
      case (Some err)
      with step(2) Cons d have "rm = (Some err, m1)" by simp
      with tr have "trace (snd rm) = trace m @ (DispatchCall evt # tr)"
        "list_all dispatch_entry (DispatchCall evt # tr)" by simp_all
      then show ?thesis by blast
    qed
  qed
qed

lemma dispatchEvents_drained_aux:
  assumes "dispatchEvents hub m = Some rm"
  shows "fst rm = None \<longrightarrow> events (ctx (snd rm)) = []"
  using assms
proof (induct rule: dispatchEvents_induct)
  case (step loop hub m rm)
  show ?case
  proof (cases "events (ctx m)")
    case Nil
    with step(2) show ?thesis by auto
  next
    case (Cons evt rest)
    let ?m0 = "observe (DispatchCall evt) (m\<lparr>ctx := ctx m\<lparr>events := rest\<rparr>\<rparr>)"
    obtain r m1 where d: "dispatchEvent hub ?m0 evt = (r, m1)"
      by (cases "dispatchEvent hub ?m0 evt") auto
    show ?thesis
    proof (cases r)
      case None
      with step(2) Cons d have "loop hub m1 = Some rm" by simp
      from step(1) [OF this] show ?thesis .
    next
      case (Some err)
      with step(2) Cons d show ?thesis by auto
    qed
  qed
qed

lemma dispatchEvents_drained:
  "dispatchEvents hub m = Some (None, m') \<Longrightarrow> events (ctx m') = []"
  using dispatchEvents_drained_aux [of hub m "(None, m')"] by simp

lemma invokeAfterFuncs_fold_trace:
  "trace (foldl (\<lambda>m fn. case afterFunc hub fn (ctx m) (world m) of
                     (oc', w') \<Rightarrow> \<lparr>ctx = oc', world = w', trace = trace m @ [HookCall fn]\<rparr>) m hs)
   = trace m @ map HookCall hs"
  by (induction hs arbitrary: m) (auto split: prod.splits)

lemma invokeAfterFuncs_trace:
  "trace (invokeAfterFuncs hub m) = trace m @ map HookCall (after (ctx m))"
  unfolding invokeAfterFuncs_def by (rule invokeAfterFuncs_fold_trace)

lemma dispatch_entry_inner: "dispatch_entry c \<Longrightarrow> inner_entry c \<and> \<not> on_zero c \<and> \<not> hook_entry c"
  by (cases c) simp_all

lemma dispatch_entries_inner:
  "list_all dispatch_entry tr \<Longrightarrow> list_all inner_entry tr \<and> \<not> list_ex on_zero tr \<and> \<not> list_ex hook_entry tr"
  by (induction tr) (auto dest: dispatch_entry_inner)

lemma hook_entries_inner:
  "list_all inner_entry (map HookCall hs)"
  "\<not> list_ex on_zero (map HookCall hs)"
  "\<not> list_ex dispatch_entry (map HookCall hs)"
  by (induction hs) auto

lemma callRollback_trace:
  "trace (snd (callRollback hub m))
     = trace m @ [TxRollback (activeTx (ctx m)) (fst (Rollback hub (activeTx (ctx m)) (world m)))]"
  by (simp add: callRollback_def split: prod.splits)



lemma callCommit_trace:
  "trace (snd (callCommit hub m))
     = trace m @ [TxCommit (activeTx (ctx m)) (fst (Commit hub (activeTx (ctx m)) (world m)))]"
  by (simp add: callCommit_def split: prod.splits)

lemma callCommit_fst: "fst (callCommit hub m) = fst (Commit hub (activeTx (ctx m)) (world m))"
  by (simp add: callCommit_def split: prod.splits)

lemma callCommit_ctx: "ctx (snd (callCommit hub m)) = ctx m"
  by (simp add: callCommit_def split: prod.splits)

text \<open>What \<^verbatim>\<open>rollback()\<close> is seen to do, in each of its three paths.\<close>

lemma rollback_trace:
  "trace (snd (rollback hub m)) = trace m @ RollbackCall #
     (if state (ctx m) = stateActive \<and> isTransactionActive (ctx m)
      then [TxRollback (activeTx (ctx m)) (fst (Rollback hub (activeTx (ctx m)) (world m)))]
      else [])"
  by (simp add: rollback_def Let_def callRollback_trace isTransactionActive_def)

lemma rollback_no_dispatch:
  "\<not> list_ex dispatch_entry (drop (length (trace m)) (trace (snd (rollback hub m))))
   \<and> \<not> list_ex hook_entry (drop (length (trace m)) (trace (snd (rollback hub m))))
   \<and> \<not> list_ex on_zero (drop (length (trace m)) (trace (snd (rollback hub m))))"
  by (simp add: rollback_trace isTransactionActive_def)

text \<open>The three ways \<^verbatim>\<open>commit()\<close> ends once the state was Active and the drain loop returned.\<close>

lemma commit_not_active:
  "state (ctx m) \<noteq> stateActive \<Longrightarrow> commit hub m = Some (Some ErrInvalidState, observe CommitCall m)"
  by (simp add: commit_def Let_def)

lemma commit_diverges:
  "state (ctx m) = stateActive \<Longrightarrow>
   dispatchEvents hub (set_state stateDispatchEvents (observe CommitCall m)) = None \<Longrightarrow>
   commit hub m = None"
  by (simp add: commit_def Let_def)

lemma commit_dispatch_failed:
  "state (ctx m) = stateActive \<Longrightarrow>
   dispatchEvents hub (set_state stateDispatchEvents (observe CommitCall m)) = Some (Some err, m1) \<Longrightarrow>
   commit hub m = Some (Some err,
     if isTransactionActive (ctx m1) then snd (callRollback hub (set_state stateFailed m1))
     else set_state stateFailed m1)"
  by (simp add: commit_def Let_def isTransactionActive_def)

lemma commit_dispatch_ok:
  "state (ctx m) = stateActive \<Longrightarrow>
   dispatchEvents hub (set_state stateDispatchEvents (observe CommitCall m)) = Some (None, m1) \<Longrightarrow>
   commit hub m =
     (case (if isTransactionActive (ctx m1) then callCommit hub m1 else (None, m1)) of
        (Some txErr, m2) \<Rightarrow> Some (Some txErr, set_state stateFailed m2)
      | (None, m2) \<Rightarrow>
          Some (None, set_state stateSuccess (invokeAfterFuncs hub (set_state stateInvokeAfter m2))))"
  by (simp add: commit_def Let_def)

lemma commit_trace:
  assumes "commit hub m = Some (r, m')"
  shows "\<exists>tr. trace m' = trace m @ CommitCall # tr \<and> list_all inner_entry tr \<and> \<not> list_ex on_zero tr"
proof (cases "state (ctx m) = stateActive")
  case False
  with assms commit_not_active [OF False, of hub] show ?thesis by auto
next
  case True
  let ?m0 = "set_state stateDispatchEvents (observe CommitCall m)"
  show ?thesis
  proof (cases "dispatchEvents hub ?m0")
    case None
    with assms commit_diverges [OF True None] show ?thesis by simp
  next
    case (Some rm)
    obtain e m1 where rm: "rm = (e, m1)" by (cases rm) auto
    from dispatchEvents_trace [OF Some] rm obtain tr1 where
      tr1: "trace m1 = trace m @ CommitCall # tr1" "list_all dispatch_entry tr1" by auto
    from dispatch_entries_inner [OF tr1(2)] have
      in1: "list_all inner_entry tr1" "\<not> list_ex on_zero tr1" by simp_all
    show ?thesis
    proof (cases e)
      case (Some err)
      with \<open>dispatchEvents hub ?m0 = Some rm\<close> rm
      have "commit hub m = Some (Some err,
          if isTransactionActive (ctx m1) then snd (callRollback hub (set_state stateFailed m1))
          else set_state stateFailed m1)"
        using commit_dispatch_failed [OF True] by simp
      with assms have m': "m' = (if isTransactionActive (ctx m1) then snd (callRollback hub (set_state stateFailed m1))
          else set_state stateFailed m1)" by simp
      show ?thesis
      proof (cases "isTransactionActive (ctx m1)")
        case True
        with m' tr1 have "trace m' = trace m @ CommitCall # (tr1 @ [TxRollback (activeTx (ctx m1))
            (fst (Rollback hub (activeTx (ctx m1)) (world m1)))])"
          by (simp add: callRollback_trace)
        moreover from True in1 have "list_all inner_entry (tr1 @ [TxRollback (activeTx (ctx m1))
            (fst (Rollback hub (activeTx (ctx m1)) (world m1)))])"
          "\<not> list_ex on_zero (tr1 @ [TxRollback (activeTx (ctx m1))
            (fst (Rollback hub (activeTx (ctx m1)) (world m1)))])"
          by (simp_all add: isTransactionActive_def)
        ultimately show ?thesis by blast
      next
        case False
        with m' tr1 in1 show ?thesis by simp
      qed
    next
      case None
      with \<open>dispatchEvents hub ?m0 = Some rm\<close> rm
      have c: "commit hub m =
         (case (if isTransactionActive (ctx m1) then callCommit hub m1 else (None, m1)) of
            (Some txErr, m2) \<Rightarrow> Some (Some txErr, set_state stateFailed m2)
          | (None, m2) \<Rightarrow>
              Some (None, set_state stateSuccess (invokeAfterFuncs hub (set_state stateInvokeAfter m2))))"
        using commit_dispatch_ok [OF True] by simp
      obtain e2 m2 where s: "(if isTransactionActive (ctx m1) then callCommit hub m1 else (None, m1)) = (e2, m2)"
        by (cases "(if isTransactionActive (ctx m1) then callCommit hub m1 else (None, m1))") auto
      then obtain tr2 where tr2: "trace m2 = trace m1 @ tr2" "list_all inner_entry tr2" "\<not> list_ex on_zero tr2"
        using callCommit_trace [of hub m1]
        by (cases "isTransactionActive (ctx m1)") (auto simp: isTransactionActive_def)
      show ?thesis
      proof (cases e2)
        case (Some txErr)
        with c s assms have "m' = set_state stateFailed m2" by simp
        with tr1 tr2 in1 have "trace m' = trace m @ CommitCall # (tr1 @ tr2)"
          "list_all inner_entry (tr1 @ tr2)" "\<not> list_ex on_zero (tr1 @ tr2)" by simp_all
        then show ?thesis by blast
      next
        case None
        with c s assms have "m' = set_state stateSuccess (invokeAfterFuncs hub (set_state stateInvokeAfter m2))"
          by simp
        with tr1 tr2 in1
        have "trace m' = trace m @ CommitCall # (tr1 @ tr2 @ map HookCall (after (ctx m2)))"
          "list_all inner_entry (tr1 @ tr2 @ map HookCall (after (ctx m2)))"
          "\<not> list_ex on_zero (tr1 @ tr2 @ map HookCall (after (ctx m2)))"
          by (simp_all add: invokeAfterFuncs_trace hook_entries_inner)
        then show ?thesis by blast
      qed
    qed
  qed
qed



lemma dispatchHandlers_prefix:
  assumes "\<forall>hnd \<in> set hs. \<forall>oc evt w. prefix (events oc) (events (fst (snd (hnd oc evt w))))"
    and "dispatchHandlers hs i evt m = (r, m')"
  shows "prefix (events (ctx m)) (events (ctx m'))"
  using assms
proof (induction hs arbitrary: i m)
  case Nil
  then show ?case by simp
next
  case (Cons hnd hs)
  obtain a oc' w' where h: "hnd (ctx m) evt (world m) = (a, oc', w')"
    by (cases "hnd (ctx m) evt (world m)") auto
  from Cons.prems(1) have "prefix (events (ctx m)) (events (fst (snd (hnd (ctx m) evt (world m)))))"
    by simp
  with h have p: "prefix (events (ctx m)) (events oc')" by simp
  show ?case
  proof (cases a)
    case None
    let ?m1 = "\<lparr>ctx = oc', world = w', trace = trace m @ [HandlerCall evt i None]\<rparr>"
    from Cons.prems(2) h None have "dispatchHandlers hs (Suc i) evt ?m1 = (r, m')" by simp
    with Cons.IH [of "Suc i" ?m1] Cons.prems(1) have "prefix (events oc') (events (ctx m'))" by simp
    with p show ?thesis by (rule prefix_order.trans)
  next
    case (Some err)
    with Cons.prems(2) h p show ?thesis by auto
  qed
qed

lemma dispatchHandlers_kept:
  assumes "\<forall>hnd \<in> set hs. \<forall>oc evt w. events (fst (snd (hnd oc evt w))) = events oc"
    and "dispatchHandlers hs i evt m = (r, m')"
  shows "events (ctx m') = events (ctx m)"
  using assms
proof (induction hs arbitrary: i m)
  case Nil
  then show ?case by simp
next
  case (Cons hnd hs)
  obtain a oc' w' where h: "hnd (ctx m) evt (world m) = (a, oc', w')"
    by (cases "hnd (ctx m) evt (world m)") auto
  from Cons.prems(1) have "events (fst (snd (hnd (ctx m) evt (world m)))) = events (ctx m)"
    by simp
  with h have p: "events oc' = events (ctx m)" by simp
  show ?case
  proof (cases a)
    case None
    let ?m1 = "\<lparr>ctx = oc', world = w', trace = trace m @ [HandlerCall evt i None]\<rparr>"
    from Cons.prems(2) h None have "dispatchHandlers hs (Suc i) evt ?m1 = (r, m')" by simp
    with Cons.IH [of "Suc i" ?m1] Cons.prems(1) have "events (ctx m') = events oc'" by simp
    with p show ?thesis by simp
  next
    case (Some err)
    with Cons.prems(2) h p show ?thesis by auto
  qed
qed

text \<open>
  The invariant of the drain loop under append-only handlers: the events dispatched so
  far followed by the pending ones only ever grow at the end.
\<close>

lemma dispatchEvents_fifo_aux:
  assumes "dispatchEvents hub m = Some rm"
  shows "append_only hub \<longrightarrow>
    prefix (dispatched (trace m) @ events (ctx m)) (dispatched (trace (snd rm)) @ events (ctx (snd rm)))"
  using assms
proof (induct rule: dispatchEvents_induct)
  case (step loop hub m rm)
  show ?case
  proof
    assume ao: "append_only hub"
    show "prefix (dispatched (trace m) @ events (ctx m)) (dispatched (trace (snd rm)) @ events (ctx (snd rm)))"
    proof (cases "events (ctx m)")
      case Nil
      with step(2) show ?thesis by auto
    next
      case (Cons evt rest)
      let ?m0 = "observe (DispatchCall evt) (m\<lparr>ctx := ctx m\<lparr>events := rest\<rparr>\<rparr>)"
      obtain r m1 where d: "dispatchEvent hub ?m0 evt = (r, m1)"
        by (cases "dispatchEvent hub ?m0 evt") auto
      from dispatchEvent_trace [OF d] obtain tr where
        tr: "trace m1 = trace m @ DispatchCall evt # tr" "dispatched tr = []" by auto
      from ao have "\<forall>hnd \<in> set (eventHandlers hub (TypeOf evt)). \<forall>oc evt w.
          prefix (events oc) (events (fst (snd (hnd oc evt w))))"
        by (simp add: append_only_def)
      from dispatchHandlers_prefix [OF this d [unfolded dispatchEvent_def]]
      have "prefix rest (events (ctx m1))" by simp
      with tr Cons have p1: "prefix (dispatched (trace m) @ events (ctx m))
          (dispatched (trace m1) @ events (ctx m1))"
        by (simp add: dispatched_append)
      show ?thesis
      proof (cases r)
        case None
        with step(2) Cons d have "loop hub m1 = Some rm" by simp
        from step(1) [OF this] ao
        have "prefix (dispatched (trace m1) @ events (ctx m1))
          (dispatched (trace (snd rm)) @ events (ctx (snd rm)))" by simp
        with p1 show ?thesis by (rule prefix_order.trans)
      next
        case (Some err)
        with step(2) Cons d have "rm = (Some err, m1)" by simp
        with p1 show ?thesis by simp
      qed
    qed
  qed
qed

lemma dispatchEvents_fifo:
  assumes "append_only hub" and "dispatchEvents hub m = Some (None, m')"
  shows "prefix (dispatched (trace m) @ events (ctx m)) (dispatched (trace m'))"
  using dispatchEvents_fifo_aux [OF assms(2)] assms(1) dispatchEvents_drained [OF assms(2)]
  by simp

lemma dispatchEvents_returns:
  assumes "buffer_kept hub"
  shows "\<exists>rm. dispatchEvents hub m = Some rm"
proof (induction "length (events (ctx m))" arbitrary: m rule: less_induct)
  case less
  show ?case
  proof (cases "events (ctx m)")
    case Nil
    then show ?thesis by (simp add: dispatchEvents.simps)
  next
    case (Cons evt rest)
    let ?m0 = "observe (DispatchCall evt) (m\<lparr>ctx := ctx m\<lparr>events := rest\<rparr>\<rparr>)"
    obtain r m1 where d: "dispatchEvent hub ?m0 evt = (r, m1)"
      by (cases "dispatchEvent hub ?m0 evt") auto
    from assms have "\<forall>hnd \<in> set (eventHandlers hub (TypeOf evt)). \<forall>oc evt w.
          events (fst (snd (hnd oc evt w))) = events oc"
      by (simp add: buffer_kept_def)
    from dispatchHandlers_kept [OF this d [unfolded dispatchEvent_def]]
    have k: "events (ctx m1) = rest" by simp
    show ?thesis
    proof (cases r)
      case None
      from k Cons have "length (events (ctx m1)) < length (events (ctx m))" by simp
      from less [OF this] obtain rm where "dispatchEvents hub m1 = Some rm" by blast
      with None Cons d show ?thesis by (subst dispatchEvents.simps) simp
    next
      case (Some err)
      with Cons d show ?thesis by (subst dispatchEvents.simps) simp
    qed
  qed
qed

section \<open>Emit and AfterFunc\<close>

text \<open>
  C1. Emit on a context in the Active state: the claim says the event is appended and no
  error is returned. The guard of the code is \<^verbatim>\<open>o.state <= stateDispatchEvents\<close>, so in
  Active (and in DispatchEvents) the call returns the invalid-state error and the buffer
  keeps its contents, while in InvokeAfter and in the three terminal states the event is
  appended and nil is returned.
\<close>

theorem Emit_guard_inverted:
  "Emit (oc\<lparr>state := stateActive\<rparr>) evt = (Some ErrInvalidState, oc\<lparr>state := stateActive\<rparr>)
   \<and> Emit (oc\<lparr>state := stateDispatchEvents\<rparr>) evt = (Some ErrInvalidState, oc\<lparr>state := stateDispatchEvents\<rparr>)
   \<and> Emit (oc\<lparr>state := stateInvokeAfter\<rparr>) evt = (None, oc\<lparr>state := stateInvokeAfter, events := events oc @ [evt]\<rparr>)
   \<and> Emit (oc\<lparr>state := stateSuccess\<rparr>) evt = (None, oc\<lparr>state := stateSuccess, events := events oc @ [evt]\<rparr>)
   \<and> Emit (oc\<lparr>state := stateFailed\<rparr>) evt = (None, oc\<lparr>state := stateFailed, events := events oc @ [evt]\<rparr>)
   \<and> Emit (oc\<lparr>state := stateRolledback\<rparr>) evt = (None, oc\<lparr>state := stateRolledback, events := events oc @ [evt]\<rparr>)"
  by (simp add: Emit_def state_defs)

text \<open>
  C10. A call of Emit or of AfterFunc that returns an error returns the invalid-state
  error and leaves the OpContext as it was: same buffer, same hooks, same state.
\<close>

theorem rejection_is_atomic:
  "(Emit oc evt = (Some err, oc') \<longrightarrow> err = ErrInvalidState \<and> oc' = oc)
   \<and> (AfterFunc pc hook = (Some err', pc') \<longrightarrow> err' = ErrInvalidState \<and> pc' = pc)"
  by (auto simp: Emit_def AfterFunc_def split: if_splits)

theorem rejection_is_atomic_witness:
  "Emit \<lparr>state = stateDispatchEvents, activeTx = 0::nat, events = [1::nat], after = [7::nat]\<rparr> 2
     = (Some ErrInvalidState, \<lparr>state = stateDispatchEvents, activeTx = 0, events = [1], after = [7]\<rparr>)
   \<and> AfterFunc \<lparr>state = stateSuccess, activeTx = 0::nat, events = [1::nat], after = [7::nat]\<rparr> 8
     = (Some ErrInvalidState, \<lparr>state = stateSuccess, activeTx = 0, events = [1], after = [7]\<rparr>)"
  using rejection_is_atomic [where oc = "\<lparr>state = stateDispatchEvents, activeTx = 0::nat, events = [1::nat], after = [7::nat]\<rparr>"
      and evt = 2 and err = ErrInvalidState
      and oc' = "\<lparr>state = stateDispatchEvents, activeTx = 0::nat, events = [1::nat], after = [7::nat]\<rparr>"
      and pc = "\<lparr>state = stateSuccess, activeTx = 0::nat, events = [1::nat], after = [7::nat]\<rparr>"
      and hook = 8 and err' = ErrInvalidState
      and pc' = "\<lparr>state = stateSuccess, activeTx = 0::nat, events = [1::nat], after = [7::nat]\<rparr>"]
  by (simp add: Emit_def AfterFunc_def state_defs)

section \<open>A body that fails or panics\<close>

lemma inner_entries_count:
  "list_all inner_entry tr \<Longrightarrow>
   count_list tr OpBody = 0 \<and> count_list tr CommitCall = 0 \<and> count_list tr RollbackCall = 0"
  by (induction tr) auto



lemma conclude_failed:
  "conclude hub (out, Some err) m1 = Some ((None, Some err), snd (rollback hub m1))"
  by (simp add: conclude_def)







section \<open>One body, one commit or rollback\<close>

lemma conclude_committed:
  assumes "conclude hub (out, None) m1 = Some ((out', err'), m')"
  shows "(out' \<noteq> None \<longrightarrow> err' = None)
    \<and> (\<exists>tr. trace m' = trace m1 @ CommitCall # tr \<and> list_all inner_entry tr \<and> \<not> list_ex on_zero tr)"
proof (cases "commit hub m1")
  case None
  with assms show ?thesis by (simp add: conclude_def)
next
  case (Some rm)
  obtain e m2 where rm: "rm = (e, m2)" by (cases rm) auto
  from commit_trace [of hub m1 e m2] Some rm obtain tr where
    tr: "trace m2 = trace m1 @ CommitCall # tr" "list_all inner_entry tr" "\<not> list_ex on_zero tr" by auto
  from assms Some rm have "m' = m2" "out' \<noteq> None \<longrightarrow> err' = None"
    by (cases e; simp add: conclude_def)+
  with tr show ?thesis by blast
qed

lemma conclude_once:
  assumes "conclude hub res m1 = Some ((out', err'), m')"
  shows "(out' \<noteq> None \<longrightarrow> err' = None)
    \<and> count_list (trace m') OpBody = count_list (trace m1) OpBody
    \<and> count_list (trace m') CommitCall + count_list (trace m') RollbackCall
        = Suc (count_list (trace m1) CommitCall + count_list (trace m1) RollbackCall)"
proof -
  obtain out err where res: "res = (out, err)" by (cases res) auto
  show ?thesis
  proof (cases err)
    case None
    from conclude_committed [of hub out m1 out' err' m'] assms res None obtain tr where
      tr: "out' \<noteq> None \<longrightarrow> err' = None" "trace m' = trace m1 @ CommitCall # tr" "list_all inner_entry tr"
      by auto
    from inner_entries_count [OF tr(3)] tr(1,2) show ?thesis by simp
  next
    case (Some e)
    with assms res have "m' = snd (rollback hub m1)" "out' = None"
      by (simp_all add: conclude_failed)
    then show ?thesis by (simp add: rollback_trace)
  qed
qed

text \<open>
  C3, as the code has it. A call of Invoke that returns has run the body once and made
  one call of \<^verbatim>\<open>commit()\<close> or \<^verbatim>\<open>rollback()\<close>, never both; so has a call of InvokeTx
  whose eager \<^verbatim>\<open>Tx()\<close> succeeded. When that \<^verbatim>\<open>Tx()\<close> fails, InvokeTx returns the
  factory's error at once: the body is not run and neither \<^verbatim>\<open>commit()\<close> nor
  \<^verbatim>\<open>rollback()\<close> is called. In every case a non-nil output comes with a nil error.
\<close>

theorem invoke_once:
  "(Invoke hub op input w = Some ((out, err), m) \<longrightarrow>
       count_list (trace m) OpBody = 1
     \<and> count_list (trace m) CommitCall + count_list (trace m) RollbackCall = 1
     \<and> (out \<noteq> None \<longrightarrow> err = None))
   \<and> (InvokeTx hub txop input' w' = Some ((out', err'), m') \<longrightarrow>
       (out' \<noteq> None \<longrightarrow> err' = None)
     \<and> (case snd (fst (Tx hub (BeginOperation hub) w')) of
          None \<Rightarrow> count_list (trace m') OpBody = 1
                 \<and> count_list (trace m') CommitCall + count_list (trace m') RollbackCall = 1
        | Some e \<Rightarrow> trace m' = [] \<and> out' = None \<and> err' = Some e))"
proof (intro conjI impI)
  assume a: "Invoke hub op input w = Some ((out, err), m)"
  obtain res oc1 w1 where b: "op (BeginOperation hub) input w = (res, oc1, w1)"
    by (cases "op (BeginOperation hub) input w") auto
  with a have "conclude hub (invokeWithRecover res) \<lparr>ctx = oc1, world = w1, trace = [OpBody]\<rparr>
      = Some ((out, err), m)" by (simp add: Invoke_def)
  from conclude_once [OF this]
  show "count_list (trace m) OpBody = 1"
    "count_list (trace m) CommitCall + count_list (trace m) RollbackCall = 1"
    "out \<noteq> None \<Longrightarrow> err = None" by simp_all
next
  assume a: "InvokeTx hub txop input' w' = Some ((out', err'), m')"
  obtain tx e oc0 w0 where t: "Tx hub (BeginOperation hub) w' = ((tx, e), oc0, w0)"
    by (cases "Tx hub (BeginOperation hub) w'") auto
  have "(out' \<noteq> None \<longrightarrow> err' = None)
     \<and> (case e of
          None \<Rightarrow> count_list (trace m') OpBody = 1
                 \<and> count_list (trace m') CommitCall + count_list (trace m') RollbackCall = 1
        | Some e \<Rightarrow> trace m' = [] \<and> out' = None \<and> err' = Some e)"
  proof (cases e)
    case (Some x)
    with a t show ?thesis by (auto simp: InvokeTx_def)
  next
    case None
    obtain res oc1 w1 where b: "txop oc0 tx input' w0 = (res, oc1, w1)"
      by (cases "txop oc0 tx input' w0") auto
    with a t None have "conclude hub (invokeWithRecover res) \<lparr>ctx = oc1, world = w1, trace = [OpBody]\<rparr>
      = Some ((out', err'), m')" by (simp add: InvokeTx_def)
    from conclude_once [OF this] None show ?thesis by simp
  qed
  with t show "out' \<noteq> None \<Longrightarrow> err' = None"
    "(case snd (fst (Tx hub (BeginOperation hub) w')) of
          None \<Rightarrow> count_list (trace m') OpBody = 1
                 \<and> count_list (trace m') CommitCall + count_list (trace m') RollbackCall = 1
        | Some e \<Rightarrow> trace m' = [] \<and> out' = None \<and> err' = Some e)" by simp_all
qed

lemmas engine_defs = Invoke_def InvokeTx_def conclude_def commit_def rollback_def callRollback_def
  callCommit_def invokeAfterFuncs_def dispatchEvent_def TypeOf_def observe_def set_state_def
  BeginOperation_def Tx_def isTransactionActive_def Let_def

theorem invoke_once_witness:
  "Invoke plainHub opInsert 7 []
     = Some ((Some 7, None),
         \<lparr>ctx = \<lparr>state = stateSuccess, activeTx = 1, events = [], after = []\<rparr>,
          world = [''begin'', ''insert'', ''commit''],
          trace = [OpBody, CommitCall, TxCommit 1 None]\<rparr>)
   \<and> InvokeTx plainHub txOpInsert 7 []
     = Some ((Some 7, None),
         \<lparr>ctx = \<lparr>state = stateSuccess, activeTx = 1, events = [], after = []\<rparr>,
          world = [''begin'', ''insert'', ''commit''],
          trace = [OpBody, CommitCall, TxCommit 1 None]\<rparr>)
   \<and> snd (fst (Tx plainHub (BeginOperation plainHub) [])) = None
   \<and> count_list [OpBody, CommitCall, TxCommit (1::nat) None :: (nat, (string, nat) event, nat) call] OpBody = 1"
  using invoke_once [of plainHub opInsert 7 "[]" "Some 7" None
      "\<lparr>ctx = \<lparr>state = stateSuccess, activeTx = 1, events = [], after = []\<rparr>,
          world = [''begin'', ''insert'', ''commit''],
          trace = [OpBody, CommitCall, TxCommit 1 None]\<rparr>"
      txOpInsert 7 "[]" "Some 7" None
      "\<lparr>ctx = \<lparr>state = stateSuccess, activeTx = 1, events = [], after = []\<rparr>,
          world = [''begin'', ''insert'', ''commit''],
          trace = [OpBody, CommitCall, TxCommit 1 None]\<rparr>"]
  by (simp add: engine_defs opInsert_def txOpInsert_def plainHub_def state_defs dispatchEvents.simps)

text \<open>
  Claim C3 as stated fails for InvokeTx: with a factory that returns an error, InvokeTx
  returns before the body and calls neither \<^verbatim>\<open>commit()\<close> nor \<^verbatim>\<open>rollback()\<close>.
\<close>

theorem InvokeTx_factory_error_counterexample:
  "InvokeTx flakyHub txOpInsert 7 []
     = Some ((None, Some (AppError ''connection refused'')),
         \<lparr>ctx = \<lparr>state = stateActive, activeTx = 0, events = [], after = []\<rparr>,
          world = [''begin failed''], trace = []\<rparr>)
   \<and> map_option (\<lambda>rm. count_list (trace (snd rm)) CommitCall + count_list (trace (snd rm)) RollbackCall)
       (InvokeTx flakyHub txOpInsert 7 []) = Some 0
   \<and> map_option (\<lambda>rm. count_list (trace (snd rm)) OpBody) (InvokeTx flakyHub txOpInsert 7 []) = Some 0"
  by (simp add: engine_defs txOpInsert_def flakyHub_def plainHub_def state_defs)

section \<open>The lazily bound transaction\<close>

lemma Tx_active:
  "isTransactionActive oc \<Longrightarrow> Tx hub oc w = ((activeTx oc, None), oc, w)"
  by (simp add: Tx_def)

lemma Tx_inactive:
  "\<not> isTransactionActive oc \<Longrightarrow>
   Tx hub oc w =
     (case beginTransaction hub w of
        ((tx, Some err), w') \<Rightarrow> ((0, Some err), oc, w')
      | ((tx, None), w') \<Rightarrow> ((tx, None), oc\<lparr>activeTx := tx\<rparr>, w'))"
  by (simp add: Tx_def)

lemma Tx_success_binds:
  assumes "Tx hub oc w = ((tx, None), oc1, w1)" and "tx \<noteq> 0"
  shows "isTransactionActive oc1 \<and> activeTx oc1 = tx"
  using assms
  by (auto simp: Tx_def isTransactionActive_def split: if_splits prod.splits option.splits)

lemma Tx_state: "state (fst (snd (Tx hub oc w))) = state oc"
  by (simp add: Tx_def split: prod.splits option.splits)

lemma Tx_repeat_active:
  "isTransactionActive oc \<Longrightarrow> Tx_repeat hub n oc w = (replicate n (activeTx oc, None), oc, w)"
  by (induction n) (simp_all add: Tx_active)

text \<open>
  C7, as the code has it. Once a call of \<^verbatim>\<open>Tx()\<close> has returned a transaction other than
  the zero value and no error, that call followed by any number of further calls
  returns the same transaction every time, and leaves the OpContext and the world as
  the first call left them; the world after the first call is the one the factory
  returned if the OpContext was unbound, so the factory ran once in all. A later call
  does not consult the factory: it returns the same whatever the hub and the world are.
\<close>

theorem Tx_bound_once:
  assumes "Tx hub oc w = ((tx, None), oc1, w1)" and "tx \<noteq> 0"
  shows "Tx_repeat hub (Suc n) oc w = (replicate (Suc n) (tx, None), oc1, w1)
    \<and> w1 = (if isTransactionActive oc then w else snd (beginTransaction hub w))
    \<and> Tx hub' oc1 w' = ((tx, None), oc1, w')"
proof -
  from Tx_success_binds [OF assms] have a: "isTransactionActive oc1" "activeTx oc1 = tx"
    by simp_all
  from assms(1) a have "Tx_repeat hub (Suc n) oc w = (replicate (Suc n) (tx, None), oc1, w1)"
    by (simp add: Tx_repeat_active)
  moreover from assms(1) have "w1 = (if isTransactionActive oc then w else snd (beginTransaction hub w))"
    by (auto simp: Tx_def split: if_splits prod.splits option.splits)
  moreover from a have "Tx hub' oc1 w' = ((tx, None), oc1, w')"
    by (simp add: Tx_active)
  ultimately show ?thesis by simp
qed

theorem Tx_bound_once_witness:
  "Tx plainHub (BeginOperation plainHub) []
     = ((1, None), \<lparr>state = stateActive, activeTx = 1, events = [], after = []\<rparr>, [''begin''])
   \<and> (1::nat) \<noteq> 0
   \<and> Tx_repeat plainHub (Suc 2) (BeginOperation plainHub) []
     = ([(1, None), (1, None), (1, None)],
        \<lparr>state = stateActive, activeTx = 1, events = [], after = []\<rparr>, [''begin''])
   \<and> Tx flakyHub \<lparr>state = stateActive, activeTx = 1, events = [], after = []\<rparr> []
     = ((1, None), \<lparr>state = stateActive, activeTx = 1, events = [], after = []\<rparr>, [])"
  using Tx_bound_once [of plainHub "BeginOperation plainHub" "[]" 1
      "\<lparr>state = stateActive, activeTx = 1, events = [], after = []\<rparr>" "[''begin'']" 2 flakyHub "[]"]
  by (simp add: numeral_3_eq_3 Tx_def BeginOperation_def isTransactionActive_def plainHub_def
      flakyHub_def state_defs)

text \<open>
  Claim C7 as stated fails when the factory fails: the first call of \<^verbatim>\<open>Tx()\<close> returns the
  zero value and the error, the second call invokes the factory again and returns the
  transaction 1. The journal shows the two calls of the factory.
\<close>

theorem Tx_factory_retried_counterexample:
  "Tx_repeat flakyHub 2 (BeginOperation flakyHub) []
     = ([(0, Some (AppError ''connection refused'')), (1, None)],
        \<lparr>state = stateActive, activeTx = 1, events = [], after = []\<rparr>,
        [''begin failed'', ''begin''])"
  by (simp add: numeral_2_eq_2 Tx_def BeginOperation_def isTransactionActive_def plainHub_def
      flakyHub_def state_defs)

text \<open>
  C9. A factory that returns the zero value and a nil error leaves the OpContext as it
  was, so no transaction is active; the next call of \<^verbatim>\<open>Tx()\<close> goes to the factory
  again; \<^verbatim>\<open>rollback()\<close> on that OpContext calls nothing; \<^verbatim>\<open>commit()\<close> never calls
  \<^verbatim>\<open>Commit\<close> or \<^verbatim>\<open>Rollback\<close> on the zero value, and with an empty buffer it calls
  neither at all and goes on to the after-hooks.
\<close>

theorem zero_transaction_is_unbound:
  assumes "\<not> isTransactionActive oc" and "beginTransaction hub w = ((0, None), w1)"
  shows "Tx hub oc w = ((0, None), oc, w1)
    \<and> \<not> isTransactionActive (fst (snd (Tx hub oc w)))
    \<and> Tx hub oc w2 =
        (case beginTransaction hub w2 of
           ((tx, Some err), w') \<Rightarrow> ((0, Some err), oc, w')
         | ((tx, None), w') \<Rightarrow> ((tx, None), oc\<lparr>activeTx := tx\<rparr>, w'))
    \<and> rollback hub \<lparr>ctx = oc, world = w1, trace = tr\<rparr>
        = (if state oc = stateActive then None else Some ErrInvalidState,
           \<lparr>ctx = (if state oc = stateActive then oc\<lparr>state := stateRolledback\<rparr> else oc),
            world = w1, trace = tr @ [RollbackCall]\<rparr>)
    \<and> (\<forall>r m'. commit hub \<lparr>ctx = oc, world = w1, trace = tr\<rparr> = Some (r, m') \<longrightarrow>
          \<not> list_ex on_zero (drop (length tr) (trace m')))
    \<and> (state oc = stateActive \<and> events oc = [] \<longrightarrow>
          (\<exists>m'. commit hub \<lparr>ctx = oc, world = w1, trace = tr\<rparr> = Some (None, m')
             \<and> trace m' = tr @ CommitCall # map HookCall (after oc)))"
proof -
  from assms(1) have z: "oc\<lparr>activeTx := 0\<rparr> = oc"
    by (cases oc) (simp add: isTransactionActive_def)
  from assms z have t: "Tx hub oc w = ((0, None), oc, w1)"
    by (simp add: Tx_inactive)
  have c: "\<forall>r m'. commit hub \<lparr>ctx = oc, world = w1, trace = tr\<rparr> = Some (r, m') \<longrightarrow>
          \<not> list_ex on_zero (drop (length tr) (trace m'))"
  proof (intro allI impI)
    fix r m' assume "commit hub \<lparr>ctx = oc, world = w1, trace = tr\<rparr> = Some (r, m')"
    from commit_trace [OF this] show "\<not> list_ex on_zero (drop (length tr) (trace m'))" by auto
  qed
  have e: "state oc = stateActive \<and> events oc = [] \<longrightarrow>
          (\<exists>m'. commit hub \<lparr>ctx = oc, world = w1, trace = tr\<rparr> = Some (None, m')
             \<and> trace m' = tr @ CommitCall # map HookCall (after oc))"
    using assms(1)
    by (auto simp: commit_def Let_def dispatchEvents.simps invokeAfterFuncs_trace isTransactionActive_def)
  have r: "rollback hub \<lparr>ctx = oc, world = w1, trace = tr\<rparr>
        = (if state oc = stateActive then None else Some ErrInvalidState,
           \<lparr>ctx = (if state oc = stateActive then oc\<lparr>state := stateRolledback\<rparr> else oc),
            world = w1, trace = tr @ [RollbackCall]\<rparr>)"
    using assms(1) by (simp add: rollback_def Let_def observe_def set_state_def isTransactionActive_def)
  from t assms(1) c e r show ?thesis by (simp add: Tx_inactive)
qed

theorem zero_transaction_is_unbound_witness:
  "\<not> isTransactionActive (BeginOperation zeroHub)
   \<and> beginTransaction zeroHub [] = ((0, None), [''begin''])
   \<and> Tx zeroHub (BeginOperation zeroHub) [] = ((0, None), BeginOperation zeroHub, [''begin''])
   \<and> Tx zeroHub (BeginOperation zeroHub) [''begin''] = ((0, None), BeginOperation zeroHub, [''begin'', ''begin''])
   \<and> rollback zeroHub \<lparr>ctx = BeginOperation zeroHub, world = [''begin''], trace = [OpBody]\<rparr>
       = (None, \<lparr>ctx = \<lparr>state = stateRolledback, activeTx = 0, events = [], after = []\<rparr>,
                 world = [''begin''], trace = [OpBody, RollbackCall]\<rparr>)
   \<and> commit zeroHub \<lparr>ctx = BeginOperation zeroHub, world = [''begin''], trace = [OpBody]\<rparr>
       = Some (None, \<lparr>ctx = \<lparr>state = stateSuccess, activeTx = 0, events = [], after = []\<rparr>,
                 world = [''begin''], trace = [OpBody, CommitCall]\<rparr>)"
  using zero_transaction_is_unbound [of "BeginOperation zeroHub" zeroHub "[]" "[''begin'']" "[''begin'']" "[OpBody]"]
  by (simp add: engine_defs zeroHub_def plainHub_def state_defs dispatchEvents.simps)

section \<open>A handler that fails\<close>





section \<open>The order of dispatch\<close>

lemma commit_succeeded:
  assumes "commit hub mc = Some (None, mf)"
  shows "\<exists>m1 tc. dispatchEvents hub (set_state stateDispatchEvents (observe CommitCall mc)) = Some (None, m1)
     \<and> events (ctx m1) = []
     \<and> trace mf = trace m1 @ tc @ map HookCall (after (ctx m1))
     \<and> \<not> list_ex dispatch_entry tc \<and> \<not> list_ex hook_entry tc"
proof (cases "state (ctx mc) = stateActive")
  case False
  with assms commit_not_active [OF False, of hub] show ?thesis by simp
next
  case True
  let ?m0 = "set_state stateDispatchEvents (observe CommitCall mc)"
  show ?thesis
  proof (cases "dispatchEvents hub ?m0")
    case None
    with assms commit_diverges [OF True None] show ?thesis by simp
  next
    case (Some rm)
    obtain e m1 where rm: "rm = (e, m1)" by (cases rm) auto
    show ?thesis
    proof (cases e)
      case (Some err)
      with \<open>dispatchEvents hub ?m0 = Some rm\<close> rm assms commit_dispatch_failed [OF True, of hub err m1]
      show ?thesis by simp
    next
      case None
      with Some rm have d: "dispatchEvents hub ?m0 = Some (None, m1)" by simp
      from commit_dispatch_ok [OF True d] have c: "commit hub mc =
         (case (if isTransactionActive (ctx m1) then callCommit hub m1 else (None, m1)) of
            (Some txErr, m2) \<Rightarrow> Some (Some txErr, set_state stateFailed m2)
          | (None, m2) \<Rightarrow>
              Some (None, set_state stateSuccess (invokeAfterFuncs hub (set_state stateInvokeAfter m2))))" .
      obtain e2 m2 where s: "(if isTransactionActive (ctx m1) then callCommit hub m1 else (None, m1)) = (e2, m2)"
        by (cases "(if isTransactionActive (ctx m1) then callCommit hub m1 else (None, m1))") auto
      then obtain tc where tc: "trace m2 = trace m1 @ tc" "\<not> list_ex dispatch_entry tc"
        "\<not> list_ex hook_entry tc" "ctx m2 = ctx m1"
        using callCommit_trace [of hub m1] callCommit_ctx [of hub m1]
        by (cases "isTransactionActive (ctx m1)") auto
      from c s assms have "e2 = None"
        "mf = set_state stateSuccess (invokeAfterFuncs hub (set_state stateInvokeAfter m2))"
        by (cases e2; simp)+
      with tc have "trace mf = trace m1 @ tc @ map HookCall (after (ctx m1))"
        by (simp add: invokeAfterFuncs_trace)
      with d dispatchEvents_drained [OF d] tc(2,3) show ?thesis by blast
    qed
  qed
qed

text \<open>
  C4. With handlers that only append to the buffer, whenever the drain returns, the
  events it dispatched followed by those still pending begin with the events dispatched
  before followed by those that were pending: none is lost, skipped or overtaken. A
  drain that returns nil has emptied the buffer, so it has dispatched them all, in
  order (the one other exit of the loop returns a handler's error). After one turn of
  the loop, what is then in the buffer (the older events first, then whatever the
  handlers of the head appended) comes next after the head in that order. The loop
  returns at once on an empty buffer, and returns in any case when the handlers leave
  the buffer as it is. In a \<^verbatim>\<open>commit()\<close> that returns nil the after-hooks are the last
  calls made: they follow the drain, which left the buffer empty, and the \<^verbatim>\<open>Commit\<close> if
  any.
\<close>

theorem drain_is_fifo:
  assumes "append_only hub" and "dispatchEvents hub m = Some (r, m')"
  shows "prefix (dispatched (trace m) @ events (ctx m)) (dispatched (trace m') @ events (ctx m'))
    \<and> (r = None \<longrightarrow> events (ctx m') = []
          \<and> prefix (dispatched (trace m) @ events (ctx m)) (dispatched (trace m')))
    \<and> (\<forall>evt rest m1.
         events (ctx m) = evt # rest \<and>
         dispatchEvent hub (observe (DispatchCall evt) (m\<lparr>ctx := (ctx m)\<lparr>events := rest\<rparr>\<rparr>)) evt = (None, m1)
         \<longrightarrow> prefix rest (events (ctx m1))
           \<and> prefix (dispatched (trace m) @ evt # events (ctx m1))
                (dispatched (trace m') @ events (ctx m')))
    \<and> (events (ctx n) = [] \<longrightarrow> dispatchEvents hub n = Some (None, n))
    \<and> (buffer_kept hub \<longrightarrow> dispatchEvents hub n \<noteq> None)
    \<and> (\<forall>mf. commit hub mc = Some (None, mf) \<longrightarrow>
         (\<exists>m1 tc. dispatchEvents hub (set_state stateDispatchEvents (observe CommitCall mc)) = Some (None, m1)
            \<and> events (ctx m1) = []
            \<and> trace mf = trace m1 @ tc @ map HookCall (after (ctx m1))
            \<and> \<not> list_ex dispatch_entry tc \<and> \<not> list_ex hook_entry tc))"
proof -
  have 1: "prefix (dispatched (trace m) @ events (ctx m)) (dispatched (trace m') @ events (ctx m'))"
    using dispatchEvents_fifo_aux [OF assms(2)] assms(1) by simp
  have 2: "r = None \<longrightarrow> events (ctx m') = []
          \<and> prefix (dispatched (trace m) @ events (ctx m)) (dispatched (trace m'))"
    using assms dispatchEvents_drained [of hub m m'] dispatchEvents_fifo [of hub m m'] by blast
  have 3: "prefix rest (events (ctx m1))
           \<and> prefix (dispatched (trace m) @ evt # events (ctx m1))
                (dispatched (trace m') @ events (ctx m'))"
    if a: "events (ctx m) = evt # rest"
      and d: "dispatchEvent hub (observe (DispatchCall evt) (m\<lparr>ctx := (ctx m)\<lparr>events := rest\<rparr>\<rparr>)) evt = (None, m1)"
    for evt rest m1
  proof -
    from assms(2) a d have l: "dispatchEvents hub m1 = Some (r, m')"
      by (subst (asm) dispatchEvents.simps) simp
    from dispatchEvent_trace [OF d] obtain tr where
      tr: "trace m1 = trace m @ DispatchCall evt # tr" "dispatched tr = []" by auto
    from assms(1) have "\<forall>hnd \<in> set (eventHandlers hub (TypeOf evt)). \<forall>oc evt w.
          prefix (events oc) (events (fst (snd (hnd oc evt w))))"
      by (simp add: append_only_def)
    from dispatchHandlers_prefix [OF this d [unfolded dispatchEvent_def]]
    have p: "prefix rest (events (ctx m1))" by simp
    from dispatchEvents_fifo_aux [OF l] assms(1) tr
    have "prefix (dispatched (trace m) @ evt # events (ctx m1))
                (dispatched (trace m') @ events (ctx m'))"
      by (simp add: dispatched_append)
    with p show ?thesis by simp
  qed
  have 4: "events (ctx n) = [] \<longrightarrow> dispatchEvents hub n = Some (None, n)"
    by (simp add: dispatchEvents.simps)
  have 5: "buffer_kept hub \<longrightarrow> dispatchEvents hub n \<noteq> None"
    using dispatchEvents_returns [of hub n] by auto
  have 6: "\<forall>mf. commit hub mc = Some (None, mf) \<longrightarrow>
         (\<exists>m1 tc. dispatchEvents hub (set_state stateDispatchEvents (observe CommitCall mc)) = Some (None, m1)
            \<and> events (ctx m1) = []
            \<and> trace mf = trace m1 @ tc @ map HookCall (after (ctx m1))
            \<and> \<not> list_ex dispatch_entry tc \<and> \<not> list_ex hook_entry tc)"
    using commit_succeeded [of hub mc] by blast
  from 1 2 3 4 5 6 show ?thesis by blast
qed

lemma chainHub_append_only: "append_only chainHub"
  by (simp add: append_only_def chainHub_def plainHub_def)

lemma plainHub_buffer_kept: "buffer_kept plainHub"
  by (simp add: buffer_kept_def plainHub_def)

lemma chain_drain:
  "dispatchEvents chainHub chainStart
     = Some (None,
         \<lparr>ctx = \<lparr>state = stateDispatchEvents, activeTx = 0, events = [], after = [5]\<rparr>,
          world = [''audit'', ''audit''],
          trace = [DispatchCall (''UserCreated'', 1), HandlerCall (''UserCreated'', 1) 0 None,
                   DispatchCall (''UserCreated'', 2), HandlerCall (''UserCreated'', 2) 0 None,
                   DispatchCall (''AuditLogged'', 1), DispatchCall (''AuditLogged'', 2)]\<rparr>)"
  by (simp add: engine_defs chainStart_def chainHub_def plainHub_def state_defs dispatchEvents.simps)

lemma chain_commit:
  "commit chainHub (set_state stateActive chainStart)
     = Some (None,
         \<lparr>ctx = \<lparr>state = stateSuccess, activeTx = 0, events = [], after = [5]\<rparr>,
          world = [''audit'', ''audit'', ''hook''],
          trace = [CommitCall,
                   DispatchCall (''UserCreated'', 1), HandlerCall (''UserCreated'', 1) 0 None,
                   DispatchCall (''UserCreated'', 2), HandlerCall (''UserCreated'', 2) 0 None,
                   DispatchCall (''AuditLogged'', 1), DispatchCall (''AuditLogged'', 2),
                   HookCall 5]\<rparr>)"
  by (simp add: engine_defs chainStart_def chainHub_def plainHub_def state_defs dispatchEvents.simps)

theorem drain_is_fifo_witness:
  "append_only chainHub
   \<and> dispatchEvents chainHub chainStart
     = Some (None,
         \<lparr>ctx = \<lparr>state = stateDispatchEvents, activeTx = 0, events = [], after = [5]\<rparr>,
          world = [''audit'', ''audit''],
          trace = [DispatchCall (''UserCreated'', 1), HandlerCall (''UserCreated'', 1) 0 None,
                   DispatchCall (''UserCreated'', 2), HandlerCall (''UserCreated'', 2) 0 None,
                   DispatchCall (''AuditLogged'', 1), DispatchCall (''AuditLogged'', 2)]\<rparr>)
   \<and> prefix (dispatched (trace chainStart) @ events (ctx chainStart))
        [(''UserCreated'', 1), (''UserCreated'', 2), (''AuditLogged'', 1), (''AuditLogged'', 2)]
   \<and> commit chainHub (set_state stateActive chainStart)
     = Some (None,
         \<lparr>ctx = \<lparr>state = stateSuccess, activeTx = 0, events = [], after = [5]\<rparr>,
          world = [''audit'', ''audit'', ''hook''],
          trace = [CommitCall,
                   DispatchCall (''UserCreated'', 1), HandlerCall (''UserCreated'', 1) 0 None,
                   DispatchCall (''UserCreated'', 2), HandlerCall (''UserCreated'', 2) 0 None,
                   DispatchCall (''AuditLogged'', 1), DispatchCall (''AuditLogged'', 2),
                   HookCall 5]\<rparr>)"
  using drain_is_fifo [of chainHub chainStart None
         "\<lparr>ctx = \<lparr>state = stateDispatchEvents, activeTx = 0, events = [], after = [5]\<rparr>,
          world = [''audit'', ''audit''],
          trace = [DispatchCall (''UserCreated'', 1), HandlerCall (''UserCreated'', 1) 0 None,
                   DispatchCall (''UserCreated'', 2), HandlerCall (''UserCreated'', 2) 0 None,
                   DispatchCall (''AuditLogged'', 1), DispatchCall (''AuditLogged'', 2)]\<rparr>"
         chainStart "set_state stateActive chainStart"]
    chainHub_append_only chain_drain chain_commit
  by simp

section \<open>Registration of a malformed handler\<close>

text \<open>
  C8. A callback whose shape is invalid makes \<^verbatim>\<open>makeEventHandler\<close> panic, and with it
  \<^verbatim>\<open>RegisterEventHandler\<close>, which returns no hub: the callback never enters the registry,
  so no dispatch reaches it. Invalid are: a number of parameters other than one or
  two, more than one result, a single result whose type does not implement \<^verbatim>\<open>error\<close>,
  and a last parameter (the event) to which the registered event type is not
  assignable.
\<close>

theorem invalid_handler_fails_at_registration:
  assumes "length (inTypes f) \<noteq> 1 \<and> length (inTypes f) \<noteq> 2
         \<or> 1 < length (outTypes f)
         \<or> length (outTypes f) = 1 \<and> \<not> Implements_error R (outTypes f ! 0)
         \<or> (length (inTypes f) = 1 \<or> length (inTypes f) = 2)
             \<and> \<not> AssignableTo R (TypeOf event) (last (inTypes f))"
  shows "\<exists>p. makeEventHandler R (TypeOf event) (FuncValue f) = Inl p
           \<and> RegisterEventHandler R hub event (FuncValue f) = Inl p"
proof -
  have l1: "length (inTypes f) = 1 \<Longrightarrow> last (inTypes f) = inTypes f ! 0"
    by (cases "inTypes f") auto
  have l2: "length (inTypes f) = 2 \<Longrightarrow> last (inTypes f) = inTypes f ! 1"
    by (cases "inTypes f"; cases "tl (inTypes f)") auto
  have "\<exists>p. makeEventHandler R (TypeOf event) (FuncValue f) = Inl p"
    using assms l1 l2 by (auto simp: makeEventHandler_def)
  then show ?thesis by (auto simp: RegisterEventHandler_def)
qed

theorem invalid_handler_fails_at_registration_witness:
  "length (inTypes hndOtherEvent) = 1
   \<and> \<not> AssignableTo goTypes (TypeOf (''*UserCreated'', 0::nat)) (last (inTypes hndOtherEvent))
   \<and> RegisterEventHandler goTypes plainHub (''*UserCreated'', 0) (FuncValue hndOtherEvent)
       = Inl (Errorf ''concrete event type *UserCreated is not assignable to event handler parameter *UserDeleted'' [])
   \<and> RegisterEventHandler goTypes plainHub (''*UserCreated'', 0) (FuncValue hndReturnsInt)
       = Inl (Errorf ''event handler return type int does not implement error'' [])
   \<and> RegisterEventHandler goTypes plainHub (''*UserCreated'', 0) (FuncValue hndNoParams)
       = Inl (Errorf ''event handler must declare 1..2 parameters'' [])
   \<and> isl (RegisterEventHandler goTypes plainHub (''*UserCreated'', 0) (FuncValue hndWellFormed)) = False"
  using invalid_handler_fails_at_registration [of hndOtherEvent goTypes "(''*UserCreated'', 0)" plainHub]
  by (simp add: RegisterEventHandler_def makeEventHandler_def goTypes_def TypeOf_def
      hndOtherEvent_def hndReturnsInt_def hndNoParams_def hndWellFormed_def)

section \<open>What code outside the package can do\<close>

text \<open>
  What code written against the public surface cannot do: change the lifecycle state,
  or, while the state is Active or DispatchEvents, change the event buffer.
\<close>

lemma Emit_state: "state (snd (Emit oc evt)) = state oc"
  by (simp add: Emit_def)

lemma AfterFunc_state: "state (snd (AfterFunc oc h)) = state oc"
  by (simp add: AfterFunc_def)

lemma dispatched_hooks: "dispatched (map HookCall hs) = []"
  by (induction hs) auto

lemma Tx_events: "events (fst (snd (Tx hub oc w))) = events oc"
  by (simp add: Tx_def split: prod.splits option.splits)

lemma perform_state: "state (fst (snd (perform hub s oc w))) = state oc"
proof (induction s arbitrary: oc w)
  case (Finish r)
  show ?case by simp
next
  case (CallTx k)
  obtain r oc' w' where t: "Tx hub oc w = (r, oc', w')" by (cases "Tx hub oc w") auto
  with Tx_state [of hub oc w] have "state oc' = state oc" by simp
  moreover have "state (fst (snd (perform hub (k r) oc' w'))) = state oc'"
    by (rule CallTx) simp
  ultimately show ?case using t by simp
next
  case (CallEmit evt k)
  obtain r oc' where e: "Emit oc evt = (r, oc')" by (cases "Emit oc evt") auto
  with Emit_state [of oc evt] have "state oc' = state oc" by simp
  moreover have "state (fst (snd (perform hub (k r) oc' w))) = state oc'"
    by (rule CallEmit) simp
  ultimately show ?case using e by simp
next
  case (CallAfterFunc h k)
  obtain r oc' where e: "AfterFunc oc h = (r, oc')" by (cases "AfterFunc oc h") auto
  with AfterFunc_state [of oc h] have "state oc' = state oc" by simp
  moreover have "state (fst (snd (perform hub (k r) oc' w))) = state oc'"
    by (rule CallAfterFunc) simp
  ultimately show ?case using e by simp
next
  case (Act f s)
  then show ?case by simp
qed

lemma perform_events:
  "state oc \<le> stateDispatchEvents \<Longrightarrow> events (fst (snd (perform hub s oc w))) = events oc"
proof (induction s arbitrary: oc w)
  case (Finish r)
  show ?case by simp
next
  case (CallTx k)
  obtain r oc' w' where t: "Tx hub oc w = (r, oc', w')" by (cases "Tx hub oc w") auto
  with Tx_state [of hub oc w] Tx_events [of hub oc w]
  have a: "state oc' = state oc" "events oc' = events oc" by simp_all
  with CallTx.prems have "events (fst (snd (perform hub (k r) oc' w'))) = events oc'"
    by (intro CallTx.IH) simp_all
  with a t show ?case by simp
next
  case (CallEmit evt k)
  from CallEmit.prems have e: "Emit oc evt = (Some ErrInvalidState, oc)" by (simp add: Emit_def)
  from CallEmit.prems have "events (fst (snd (perform hub (k (Some ErrInvalidState)) oc w))) = events oc"
    by (intro CallEmit.IH) simp_all
  with e show ?case by simp
next
  case (CallAfterFunc h k)
  obtain r oc' where e: "AfterFunc oc h = (r, oc')" by (cases "AfterFunc oc h") auto
  then have a: "state oc' = state oc" "events oc' = events oc"
    by (auto simp: AfterFunc_def split: if_splits)
  with CallAfterFunc.prems have "events (fst (snd (perform hub (k r) oc' w))) = events oc'"
    by (intro CallAfterFunc.IH) simp_all
  with a e show ?case by simp
next
  case (Act f s)
  then show ?case by simp
qed

text \<open>
  So with a body written against the public surface the buffer is empty when
  \<^verbatim>\<open>commit()\<close> drains it: Invoke always returns, the body has left the state Active, and
  no event is dispatched, whatever the body passed to \<^verbatim>\<open>Emit\<close>.
\<close>

lemma Invoke_script:
  "\<exists>r m. Invoke hub (\<lambda>oc i. perform hub (s i) oc) input w = Some (r, m)
     \<and> state (fst (snd (perform hub (s input) (BeginOperation hub) w))) = stateActive
     \<and> dispatched (trace m) = []"
proof -
  obtain res oc1 w1 where b: "perform hub (s input) (BeginOperation hub) w = (res, oc1, w1)"
    by (cases "perform hub (s input) (BeginOperation hub) w") auto
  have st0: "state (BeginOperation hub) = stateActive" "events (BeginOperation hub) = []"
    by (simp_all add: BeginOperation_def stateActive_def)
  from perform_state [of hub "s input" "BeginOperation hub" w] b st0
  have st: "state oc1 = stateActive" by simp
  from perform_events [of "BeginOperation hub" hub "s input" w] b st0
  have ev: "events oc1 = []" by (simp add: state_defs)
  let ?m1 = "\<lparr>ctx = oc1, world = w1, trace = [OpBody]\<rparr>"
  obtain out err where r: "invokeWithRecover res = (out, err)" by (cases "invokeWithRecover res") auto
  show ?thesis
  proof (cases err)
    case (Some e)
    with b r have "Invoke hub (\<lambda>oc i. perform hub (s i) oc) input w
        = Some ((None, Some e), snd (rollback hub ?m1))"
      by (simp add: Invoke_def conclude_failed)
    moreover have "dispatched (trace (snd (rollback hub ?m1))) = []"
      by (simp add: rollback_trace)
    ultimately show ?thesis using st b by auto
  next
    case None
    from st ev have d: "dispatchEvents hub (set_state stateDispatchEvents (observe CommitCall ?m1))
        = Some (None, set_state stateDispatchEvents (observe CommitCall ?m1))"
      by (simp add: dispatchEvents.simps)
    from st have "state (ctx ?m1) = stateActive" by simp
    from commit_dispatch_ok [OF this d] obtain e2 m2 where c: "commit hub ?m1 = Some (e2, m2)"
      by (auto split: prod.splits option.splits)
    let ?s = "set_state stateDispatchEvents (observe CommitCall ?m1)"
    obtain e3 m3 where s3: "(if isTransactionActive (ctx ?s) then callCommit hub ?s else (None, ?s)) = (e3, m3)"
      by (cases "(if isTransactionActive (ctx ?s) then callCommit hub ?s else (None, ?s))") auto
    then have t3: "dispatched (trace m3) = []"
      using callCommit_trace [of hub ?s]
      by (cases "isTransactionActive (ctx ?s)") (auto simp: dispatched_append)
    from c s3 commit_dispatch_ok [OF \<open>state (ctx ?m1) = stateActive\<close> d]
    have "trace m2 = trace m3 \<or> trace m2 = trace m3 @ map HookCall (after (ctx m3))"
      by (cases e3) (auto simp: invokeAfterFuncs_trace)
    with t3 have nd: "dispatched (trace m2) = []"
      by (auto simp: dispatched_append dispatched_hooks)
    from c b r None have "\<exists>r. Invoke hub (\<lambda>oc i. perform hub (s i) oc) input w = Some (r, m2)"
      by (cases e2) (simp_all add: Invoke_def conclude_def)
    with nd st b show ?thesis by auto
  qed
qed

lemma readme_body_event_is_dropped:
  "Invoke auditHub (\<lambda>oc i. perform auditHub (readmeCreateUser i) oc) 7 []
     = Some ((Some 7, None),
         \<lparr>ctx = \<lparr>state = stateSuccess, activeTx = 1, events = [], after = []\<rparr>,
          world = [''begin'', ''insert'', ''commit''],
          trace = [OpBody, CommitCall, TxCommit 1 None]\<rparr>)"
  by (simp add: engine_defs Emit_def readmeCreateUser_def auditHub_def plainHub_def state_defs
      dispatchEvents.simps)

end
